(* ===== verification/Prelude.thy ===== *)
theory Prelude
  imports Main "HOL-Library.Multiset" "HOL-Library.Char_ord" "HOL-Library.List_Lexorder" "HOL-Library.Product_Lexorder"
begin

section \<open>Shared vocabulary\<close>

text \<open>
  What every component of the relay uses: instants and durations, Python exceptions as
  values, the error monad in which the handlers are written, and a few facts on lists
  (stable sorting, row updates, pages) that the component theories share.
\<close>

named_theorems res_simps "equations of the error monad"
named_theorems row_simps "how row updates act on the fields of a table's rows"

subsection \<open>Time\<close>

text \<open>
  A \<open>datetime\<close> of the code is a UTC reading with microseconds: an \<open>instant\<close> is that
  many microseconds since the epoch. Python's \<open>timedelta(seconds=n)\<close> is \<open>seconds n\<close>.
\<close>

type_synonym instant = int

definition seconds :: "int \<Rightarrow> int" where
  "seconds n = n * 1000000"

definition days :: "int \<Rightarrow> int" where
  "days n = seconds (n * 86400)"

lemma seconds_mono [simp]: "seconds a \<le> seconds b \<longleftrightarrow> a \<le> b"
  by (simp add: seconds_def)

lemma seconds_less [simp]: "seconds a < seconds b \<longleftrightarrow> a < b"
  by (simp add: seconds_def)

lemma seconds_pos [simp]: "0 < seconds a \<longleftrightarrow> 0 < a" "0 \<le> seconds a \<longleftrightarrow> 0 \<le> a"
  by (simp_all add: seconds_def)

subsection \<open>Exceptions as values\<close>

text \<open>
  The exceptions the code raises or can meet. \<open>HTTPException\<close> carries FastAPI's status
  code and detail; \<open>ProviderError\<close> its message and the \<open>permanent\<close> flag; \<open>HTTPError\<close>
  is httpx's base class; \<open>OtherException\<close> stands for every class the code does not name.
\<close>

datatype exn =
    HTTPException int string
  | InvalidPhoneNumber string
  | ValueError string
  | JSONDecodeError
  | TypeError string
  | KeyError string
  | AttributeError string
  | IntegrityError string
  | MultipleResultsFound
  | StaleDataError
  | HTTPError string
  | TimeoutError
  | ProviderError string bool
  | OtherException string

text \<open>\<open>except ValueError\<close> also catches its subclasses.\<close>

fun is_ValueError :: "exn \<Rightarrow> bool" where
  "is_ValueError (ValueError _) = True"
| "is_ValueError (InvalidPhoneNumber _) = True"
| "is_ValueError JSONDecodeError = True"
| "is_ValueError _ = False"

fun is_KeyError :: "exn \<Rightarrow> bool" where
  "is_KeyError (KeyError _) = True"
| "is_KeyError _ = False"

fun is_TypeError :: "exn \<Rightarrow> bool" where
  "is_TypeError (TypeError _) = True"
| "is_TypeError _ = False"

fun is_HTTPError :: "exn \<Rightarrow> bool" where
  "is_HTTPError (HTTPError _) = True"
| "is_HTTPError _ = False"

type_synonym 'a res = "exn + 'a"

primrec rbind :: "'a res \<Rightarrow> ('a \<Rightarrow> 'b res) \<Rightarrow> 'b res" where
  "rbind (Inl e) f = Inl e"
| "rbind (Inr x) f = f x"

text \<open>\<open>[f(x) for x in xs]\<close> where \<open>f\<close> may raise: the first exception wins.\<close>

fun mapR :: "('a \<Rightarrow> 'b res) \<Rightarrow> 'a list \<Rightarrow> 'b list res" where
  "mapR f [] = Inr []"
| "mapR f (x # xs) = rbind (f x) (\<lambda>y. rbind (mapR f xs) (\<lambda>ys. Inr (y # ys)))"

lemma rbind_Inr_iff [res_simps]: "rbind m f = Inr y \<longleftrightarrow> (\<exists>x. m = Inr x \<and> f x = Inr y)"
  by (cases m) auto

lemma rbind_Inl_iff [res_simps]:
  "rbind m f = Inl e \<longleftrightarrow> m = Inl e \<or> (\<exists>x. m = Inr x \<and> f x = Inl e)"
  by (cases m) auto

lemma mapR_Inr_iff: "mapR f xs = Inr ys \<longleftrightarrow> list_all2 (\<lambda>x y. f x = Inr y) xs ys"
  by (induction xs arbitrary: ys) (auto simp: res_simps list_all2_Cons1)

lemma mapR_length: "mapR f xs = Inr ys \<Longrightarrow> length ys = length xs"
  by (auto simp: mapR_Inr_iff dest: list_all2_lengthD)

lemma mapR_mem: "mapR f xs = Inr ys \<Longrightarrow> y \<in> set ys \<Longrightarrow> \<exists>x \<in> set xs. f x = Inr y"
  by (induction xs arbitrary: ys) (auto simp: res_simps)

lemma mapR_total: "(\<And>x. x \<in> set xs \<Longrightarrow> f x = Inr (g x)) \<Longrightarrow> mapR f xs = Inr (map g xs)"
  by (induction xs) auto

lemma mapR_Inl: "mapR f xs = Inl e \<Longrightarrow> \<exists>x \<in> set xs. f x = Inl e"
  by (induction xs) (auto simp: res_simps)

lemma mapR_Inl_iff: "(\<exists>e. mapR f xs = Inl e) \<longleftrightarrow> (\<exists>x \<in> set xs. \<exists>e. f x = Inl e)"
proof (cases "mapR f xs")
  case (Inl e)
  then show ?thesis using mapR_Inl [OF Inl] by auto
next
  case (Inr ys)
  then have "list_all2 (\<lambda>x y. f x = Inr y) xs ys" by (simp add: mapR_Inr_iff)
  then have "\<forall>x \<in> set xs. \<exists>y. f x = Inr y" by (induction rule: list_all2_induct) auto
  then show ?thesis using Inr by force
qed

subsection \<open>Lists\<close>

lemma sort_key_hd_least:
  assumes "sort_key f xs = y # ys"
  shows "y \<in> set xs \<and> (\<forall>x \<in> set xs. f y \<le> f x)"
proof -
  have "sorted (map f (y # ys))" using sorted_sort_key [of f xs] assms by simp
  moreover have "set xs = set (y # ys)" using set_sort [of f xs] assms by simp
  ultimately show ?thesis by auto
qed

lemma map_sort_key: "map f (sort_key f xs) = sort (map f xs)"
  by (rule properties_for_sort [symmetric]) simp_all

lemma sort_key_perm_keys:
  assumes "mset xs = mset ys"
  shows "map f (sort_key f xs) = map f (sort_key f ys)"
proof -
  have "mset (map f xs) = mset (map f ys)" using assms by simp
  then have "sort (map f xs) = sort (map f ys)"
    by (intro properties_for_sort) (simp_all del: mset_map)
  then show ?thesis by (simp add: map_sort_key)
qed

lemma map_enumerate_snd: "map (\<lambda>p. g (snd p)) (enumerate n xs) = map g xs"
  by (induction xs arbitrary: n) auto

lemma distinct_singleton: "set xs = {x} \<Longrightarrow> distinct xs \<Longrightarrow> xs = [x]"
proof -
  assume a: "set xs = {x}" "distinct xs"
  then obtain y ys where xs: "xs = y # ys" by (cases xs) auto
  then have "y = x" "set ys \<subseteq> {x}" "x \<notin> set ys" using a by auto
  then show ?thesis using xs by (cases ys) auto
qed

lemma distinct_map_eqD: "distinct (map f xs) \<Longrightarrow> x \<in> set xs \<Longrightarrow> y \<in> set xs \<Longrightarrow> f x = f y \<Longrightarrow> x = y"
  by (meson distinct_map inj_onD)

lemma distinct_map_filter: "distinct (map f xs) \<Longrightarrow> distinct (map f (filter P xs))"
  by (induction xs) auto

end
