(* ===== verification/PyStr.thy ===== *)
theory PyStr
  imports Prelude
begin

section \<open>Python strings\<close>

text \<open>
  The string methods the code calls, on strings of code points 0 to 255 (Isabelle's
  \<open>char\<close>): \<open>strip\<close>, \<open>rstrip("/")\<close>, \<open>lower\<close>, \<open>startswith\<close>, \<open>removeprefix\<close>,
  \<open>isdigit\<close>, \<open>join\<close>, \<open>replace\<close>, \<open>str(int)\<close> and \<open>int(str)\<close>.
\<close>

definition codepoint :: "char \<Rightarrow> nat" where
  "codepoint c = of_char c"

definition is_space :: "char \<Rightarrow> bool" where
  "is_space c \<longleftrightarrow>
     9 \<le> codepoint c \<and> codepoint c \<le> 13 \<or> 28 \<le> codepoint c \<and> codepoint c \<le> 32 \<or> codepoint c = 133 \<or> codepoint c = 160"

definition is_ascii :: "string \<Rightarrow> bool" where
  "is_ascii s \<longleftrightarrow> list_all (\<lambda>c. codepoint c < 128) s"

definition dropWhile_end :: "('a \<Rightarrow> bool) \<Rightarrow> 'a list \<Rightarrow> 'a list" where
  "dropWhile_end P s = rev (dropWhile P (rev s))"

definition strip :: "string \<Rightarrow> string" where
  "strip s = dropWhile_end is_space (dropWhile is_space s)"

definition rstrip_slash :: "string \<Rightarrow> string" where
  "rstrip_slash s = dropWhile_end (\<lambda>c. c = CHR ''/'') s"

definition lower_char :: "char \<Rightarrow> char" where
  "lower_char c =
     (if 65 \<le> codepoint c \<and> codepoint c \<le> 90 \<or> 192 \<le> codepoint c \<and> codepoint c \<le> 222 \<and> codepoint c \<noteq> 215
      then char_of (codepoint c + 32) else c)"

definition lower :: "string \<Rightarrow> string" where
  "lower s = map lower_char s"

definition starts_with :: "string \<Rightarrow> string \<Rightarrow> bool" where
  "starts_with p s \<longleftrightarrow> take (length p) s = p"

definition removeprefix :: "string \<Rightarrow> string \<Rightarrow> string" where
  "removeprefix p s = (if starts_with p s then drop (length p) s else s)"

text \<open>\<open>str.isdigit\<close> also accepts the superscript digits of Latin-1.\<close>

definition isdigit :: "char \<Rightarrow> bool" where
  "isdigit c \<longleftrightarrow> 48 \<le> codepoint c \<and> codepoint c \<le> 57 \<or> codepoint c \<in> {178, 179, 185}"

fun join :: "string \<Rightarrow> string list \<Rightarrow> string" where
  "join sep [] = []"
| "join sep [s] = s"
| "join sep (s # t # ss) = s @ sep @ join sep (t # ss)"

definition replace_Z :: "string \<Rightarrow> string" where
  "replace_Z s = concat (map (\<lambda>c. if c = CHR ''Z'' then ''+00:00'' else [c]) s)"

subsection \<open>Facts\<close>

lemma dropWhile_end_idem: "dropWhile_end P (dropWhile_end P s) = dropWhile_end P s"
  by (simp add: dropWhile_end_def)

lemma hd_dropWhile_end: "dropWhile_end P s \<noteq> [] \<Longrightarrow> hd (dropWhile_end P s) = hd s"
proof -
  assume ne: "dropWhile_end P s \<noteq> []"
  have "rev s = takeWhile P (rev s) @ dropWhile P (rev s)" by simp
  then have "s = dropWhile_end P s @ rev (takeWhile P (rev s))"
    unfolding dropWhile_end_def by (metis rev_append rev_rev_ident)
  with ne show ?thesis by (metis hd_append2)
qed

lemma dropWhile_eq_self: "s = [] \<or> \<not> P (hd s) \<Longrightarrow> dropWhile P s = s"
  by (cases s) auto

lemma strip_idem [simp]: "strip (strip s) = strip s"
proof -
  let ?t = "dropWhile is_space s"
  have "dropWhile is_space (dropWhile_end is_space ?t) = dropWhile_end is_space ?t"
  proof (rule dropWhile_eq_self, rule disjCI)
    assume "\<not> \<not> is_space (hd (dropWhile_end is_space ?t))"
    then show "dropWhile_end is_space ?t = []"
      by (metis dropWhile_eq_Nil_conv hd_dropWhile hd_dropWhile_end dropWhile_end_def
          rev.simps(1) dropWhile.simps(1))
  qed
  then show ?thesis by (simp add: strip_def dropWhile_end_idem)
qed

lemma strip_Nil [simp]: "strip [] = []"
  by (simp add: strip_def dropWhile_end_def)

lemma removeprefix_prefix [simp]: "removeprefix p (p @ s) = s"
  by (simp add: removeprefix_def starts_with_def)

lemma length_join:
  "xs \<noteq> [] \<Longrightarrow> length (join sep xs) + length sep = sum_list (map (\<lambda>s. length s + length sep) xs)"
  by (induction sep xs rule: join.induct) auto

end
