(* ===== verification/PyJson.thy ===== *)
theory PyJson
  imports PyStr
begin

section \<open>JSON values as Python sees them\<close>

text \<open>
  What \<open>json.loads\<close> returns (a \<open>dict\<close> keeps the order of its keys; its keys are distinct),
  truth values, \<open>dict.get\<close>, \<open>str\<close>, and \<open>json.dumps\<close> with either set of separators.
  A float is represented by the text Python prints for it.
\<close>

datatype json =
    JNull
  | JBool bool
  | JInt int
  | JFloat string
  | JStr string
  | JList "json list"
  | JObj "(string \<times> json) list"

fun truthy :: "json \<Rightarrow> bool" where
  "truthy JNull = False"
| "truthy (JBool b) = b"
| "truthy (JInt n) = (n \<noteq> 0)"
| "truthy (JFloat r) = (r \<noteq> ''0.0'' \<and> r \<noteq> ''-0.0'')"
| "truthy (JStr s) = (s \<noteq> [])"
| "truthy (JList xs) = (xs \<noteq> [])"
| "truthy (JObj kvs) = (kvs \<noteq> [])"

text \<open>\<open>d.get(k)\<close> is \<open>None\<close>, JSON's null, for a key the dict does not have.\<close>

definition jget :: "(string \<times> json) list \<Rightarrow> string \<Rightarrow> json" where
  "jget kvs k = (case map_of kvs k of None \<Rightarrow> JNull | Some v \<Rightarrow> v)"

definition jget_or :: "(string \<times> json) list \<Rightarrow> string \<Rightarrow> json \<Rightarrow> json" where
  "jget_or kvs k d = (case map_of kvs k of None \<Rightarrow> d | Some v \<Rightarrow> v)"

text \<open>\<open>a or b\<close> on values.\<close>

definition jor :: "json \<Rightarrow> json \<Rightarrow> json" where
  "jor a b = (if truthy a then a else b)"

text \<open>\<open>v[k]\<close>: a missing key raises, and so does subscripting anything but a dict by a string.\<close>

fun jindex :: "json \<Rightarrow> string \<Rightarrow> json res" where
  "jindex (JObj kvs) k = (case map_of kvs k of None \<Rightarrow> Inl (KeyError k) | Some v \<Rightarrow> Inr v)"
| "jindex _ k = Inl (TypeError ''not subscriptable by a string'')"

fun is_dict :: "json \<Rightarrow> bool" where
  "is_dict (JObj _) = True"
| "is_dict _ = False"

fun is_str :: "json \<Rightarrow> bool" where
  "is_str (JStr _) = True"
| "is_str _ = False"

fun the_dict :: "json \<Rightarrow> (string \<times> json) list" where
  "the_dict (JObj kvs) = kvs"
| "the_dict _ = []"

fun the_str :: "json \<Rightarrow> string" where
  "the_str (JStr s) = s"
| "the_str _ = []"

text \<open>\<open>None\<close> or a string, as a value.\<close>

definition opt_json :: "string option \<Rightarrow> json" where
  "opt_json v = (case v of None \<Rightarrow> JNull | Some s \<Rightarrow> JStr s)"

subsection \<open>Decimal integers\<close>

definition digit_char :: "nat \<Rightarrow> char" where
  "digit_char d = char_of (48 + d)"

fun dec_nat :: "nat \<Rightarrow> string" where
  "dec_nat n = (if n < 10 then [digit_char n] else dec_nat (n div 10) @ [digit_char (n mod 10)])"

declare dec_nat.simps [simp del]

definition dec_int :: "int \<Rightarrow> string" where
  "dec_int n = (if n < 0 then CHR ''-'' # dec_nat (nat (- n)) else dec_nat (nat n))"

text \<open>
  \<open>int(s)\<close> of a stripped string: a sign, then digits with single underscores between them.
  \<open>scan_digits acc d s\<close> reads the rest of the digits; \<open>d\<close> tells whether the last character
  read was a digit. Python refuses more than 4300 digits.
\<close>

definition is_dec :: "char \<Rightarrow> bool" where
  "is_dec c \<longleftrightarrow> 48 \<le> codepoint c \<and> codepoint c \<le> 57"

fun scan_digits :: "nat \<Rightarrow> bool \<Rightarrow> string \<Rightarrow> nat option" where
  "scan_digits acc d [] = (if d then Some acc else None)"
| "scan_digits acc d (c # cs) =
     (if is_dec c then scan_digits (10 * acc + (codepoint c - 48)) True cs
      else if c = CHR ''_'' \<and> d then scan_digits acc False cs
      else None)"

definition int_digits :: "string \<Rightarrow> int option" where
  "int_digits s =
     (if length (filter is_dec s) > 4300 then None else map_option int (scan_digits 0 False s))"

definition py_int :: "string \<Rightarrow> int option" where
  "py_int s =
     (case s of
        CHR ''-'' # ds \<Rightarrow> map_option uminus (int_digits ds)
      | CHR ''+'' # ds \<Rightarrow> int_digits ds
      | _ \<Rightarrow> int_digits s)"

subsection \<open>\<open>str\<close> and \<open>repr\<close>\<close>

definition hexd :: "nat \<Rightarrow> char" where
  "hexd n = (if n < 10 then char_of (48 + n) else char_of (87 + n))"

definition hex2 :: "nat \<Rightarrow> string" where
  "hex2 n = [hexd (n div 16), hexd (n mod 16)]"

definition repr_char :: "char \<Rightarrow> char \<Rightarrow> string" where
  "repr_char q c =
     (if c = q \<or> c = CHR 0x5C then [CHR 0x5C, c]
      else if codepoint c = 10 then [CHR 0x5C, CHR ''n'']
      else if codepoint c = 13 then [CHR 0x5C, CHR ''r'']
      else if codepoint c = 9 then [CHR 0x5C, CHR ''t'']
      else if codepoint c < 32 \<or> 127 \<le> codepoint c \<and> codepoint c \<le> 160 \<or> codepoint c = 173
        then CHR 0x5C # CHR ''x'' # hex2 (codepoint c)
      else [c])"

definition repr_str :: "string \<Rightarrow> string" where
  "repr_str s =
     (let q = (if CHR 0x27 \<in> set s \<and> CHR 0x22 \<notin> set s then CHR 0x22 else CHR 0x27)
      in q # concat (map (repr_char q) s) @ [q])"

fun py_repr :: "json \<Rightarrow> string" where
  "py_repr JNull = ''None''"
| "py_repr (JBool b) = (if b then ''True'' else ''False'')"
| "py_repr (JInt n) = dec_int n"
| "py_repr (JFloat r) = r"
| "py_repr (JStr s) = repr_str s"
| "py_repr (JList xs) = ''['' @ join '', '' (map py_repr xs) @ '']''"
| "py_repr (JObj kvs) =
     ''{'' @ join '', '' (map (\<lambda>(k, v). repr_str k @ '': '' @ py_repr v) kvs) @ ''}''"

fun py_str :: "json \<Rightarrow> string" where
  "py_str (JStr s) = s"
| "py_str v = py_repr v"

subsection \<open>\<open>json.dumps\<close>\<close>

text \<open>\<open>ensure_ascii\<close> is on: everything outside the printable ASCII characters is escaped.\<close>

definition esc_char :: "char \<Rightarrow> string" where
  "esc_char c =
     (if c = CHR 0x22 \<or> c = CHR 0x5C then [CHR 0x5C, c]
      else if codepoint c = 10 then [CHR 0x5C, CHR ''n'']
      else if codepoint c = 13 then [CHR 0x5C, CHR ''r'']
      else if codepoint c = 9 then [CHR 0x5C, CHR ''t'']
      else if codepoint c = 12 then [CHR 0x5C, CHR ''f'']
      else if codepoint c = 8 then [CHR 0x5C, CHR ''b'']
      else if codepoint c < 32 \<or> 126 < codepoint c then [CHR 0x5C, CHR ''u'', CHR ''0'', CHR ''0''] @ hex2 (codepoint c)
      else [c])"

definition json_str :: "string \<Rightarrow> string" where
  "json_str s = CHR 0x22 # concat (map esc_char s) @ [CHR 0x22]"

fun dumps :: "string \<Rightarrow> string \<Rightarrow> json \<Rightarrow> string" where
  "dumps isep ksep JNull = ''null''"
| "dumps isep ksep (JBool b) = (if b then ''true'' else ''false'')"
| "dumps isep ksep (JInt n) = dec_int n"
| "dumps isep ksep (JFloat r) = r"
| "dumps isep ksep (JStr s) = json_str s"
| "dumps isep ksep (JList xs) = ''['' @ join isep (map (dumps isep ksep) xs) @ '']''"
| "dumps isep ksep (JObj kvs) =
     ''{'' @ join isep (map (\<lambda>(k, v). json_str k @ ksep @ dumps isep ksep v) kvs) @ ''}''"

text \<open>\<open>sort_keys=True\<close> orders every dict by its keys before printing.\<close>

fun sort_keys :: "json \<Rightarrow> json" where
  "sort_keys (JList xs) = JList (map sort_keys xs)"
| "sort_keys (JObj kvs) = JObj (sort_key fst (map (\<lambda>(k, v). (k, sort_keys v)) kvs))"
| "sort_keys v = v"

subsection \<open>Facts\<close>

lemma jget_or_simps [simp]:
  "map_of kvs k = None \<Longrightarrow> jget_or kvs k d = d"
  "map_of kvs k = Some v \<Longrightarrow> jget_or kvs k d = v"
  by (simp_all add: jget_or_def)

lemma jindex_Inr_iff: "jindex v k = Inr x \<longleftrightarrow> (\<exists>kvs. v = JObj kvs \<and> map_of kvs k = Some x)"
  by (cases v) (auto split: option.splits)

lemma codepoint_digit_char: "d < 10 \<Longrightarrow> codepoint (digit_char d) = 48 + d"
  by (simp add: codepoint_def digit_char_def)

lemma is_dec_digit_char: "d < 10 \<Longrightarrow> is_dec (digit_char d)"
  by (simp add: is_dec_def codepoint_digit_char)

lemma dec_nat_digits: "list_all is_dec (dec_nat n)"
proof (induction n rule: dec_nat.induct)
  case (1 n)
  then show ?case by (subst dec_nat.simps) (auto simp: is_dec_digit_char)
qed

lemma dec_nat_ne [simp]: "dec_nat n \<noteq> []"
  by (subst dec_nat.simps) simp

lemma length_dec_nat: "n < 10 ^ k \<Longrightarrow> 0 < k \<Longrightarrow> length (dec_nat n) \<le> k"
proof (induction k arbitrary: n)
  case (Suc k)
  show ?case
  proof (cases "n < 10")
    case True
    then show ?thesis by (subst dec_nat.simps) simp
  next
    case False
    then have "k \<noteq> 0" using Suc.prems(1) by (cases k) auto
    moreover have "n div 10 < 10 ^ k" using Suc.prems(1) by (simp add: less_mult_imp_div_less mult.commute)
    ultimately show ?thesis using Suc.IH [of "n div 10"] False by (subst dec_nat.simps) simp
  qed
qed simp

lemma scan_digits_append_True:
  "list_all is_dec ds \<Longrightarrow>
   scan_digits acc True (ds @ cs) = scan_digits (foldl (\<lambda>a c. 10 * a + (codepoint c - 48)) acc ds) True cs"
  by (induction ds arbitrary: acc) auto

lemma scan_digits_append:
  "list_all is_dec ds \<Longrightarrow> ds \<noteq> [] \<Longrightarrow>
   scan_digits acc d (ds @ cs) = scan_digits (foldl (\<lambda>a c. 10 * a + (codepoint c - 48)) acc ds) True cs"
  by (cases ds) (auto simp: scan_digits_append_True)

lemma foldl_dec_nat: "foldl (\<lambda>a c. 10 * a + (codepoint c - 48)) 0 (dec_nat n) = n"
proof (induction n rule: dec_nat.induct)
  case (1 n)
  show ?case
    by (subst dec_nat.simps) (use 1 in \<open>auto simp: codepoint_digit_char\<close>)
qed

lemma scan_dec_nat: "scan_digits 0 d (dec_nat n) = Some n"
  using scan_digits_append [of "dec_nat n" 0 d "[]"] by (simp add: dec_nat_digits foldl_dec_nat)

lemma dec_nat_inj: "dec_nat m = dec_nat n \<longleftrightarrow> m = n"
  by (metis foldl_dec_nat)

lemma int_digits_dec_nat: "length (dec_nat n) \<le> 4300 \<Longrightarrow> int_digits (dec_nat n) = Some (int n)"
proof -
  assume "length (dec_nat n) \<le> 4300"
  then have "length (filter is_dec (dec_nat n)) \<le> 4300"
    by (meson le_trans length_filter_le)
  then show ?thesis by (simp add: int_digits_def scan_dec_nat)
qed

lemma dec_nat_hd: "is_dec (hd (dec_nat n))"
  using dec_nat_digits [of n] by (cases "dec_nat n") auto

lemma is_dec_sign [simp]: "\<not> is_dec CHR ''-''" "\<not> is_dec CHR ''+''"
  by (simp_all add: is_dec_def codepoint_def)

lemma py_int_dec_int: "length (dec_int n) \<le> 4300 \<Longrightarrow> py_int (dec_int n) = Some n"
proof (cases "n < 0")
  case True
  assume "length (dec_int n) \<le> 4300"
  with True show ?thesis by (simp add: dec_int_def py_int_def int_digits_dec_nat)
next
  case False
  assume len: "length (dec_int n) \<le> 4300"
  obtain c cs where cs: "dec_nat (nat n) = c # cs" and c: "is_dec c"
    by (metis dec_nat_hd dec_nat_ne list.collapse)
  then have "c \<noteq> CHR ''-''" "c \<noteq> CHR ''+''" by auto
  then have "py_int (dec_nat (nat n)) = int_digits (dec_nat (nat n))"
    unfolding py_int_def cs by (auto split: char.splits bool.splits)
  with False len show ?thesis by (simp add: dec_int_def int_digits_dec_nat)
qed

end
