(* ===== verification/Models.thy ===== *)
theory Models
  imports PyJson
begin

section \<open>The persistence model (models.py)\<close>

text \<open>
  The two tables of the service. A row is a record with the columns of the ORM class; an
  ORM object in a session is a copy of its row, and \<open>changes\<close> is what SQLAlchemy writes
  back at a flush: the columns on which the object differs from what was loaded, plus
  \<open>updated_at\<close>, which \<open>onupdate=utcnow\<close> stamps when the object does not set it itself.
\<close>

datatype direction = OUTBOUND | INBOUND

datatype message_status = QUEUED | SENDING | SENT | DELIVERED | FAILED | PUBLISHED | RECEIVED

datatype transport = Sms | Ntfy | SmsFallback

datatype delivery_status = Pending | Delivered | Failed | Cancelled

fun direction_value :: "direction \<Rightarrow> string" where
  "direction_value OUTBOUND = ''outbound''"
| "direction_value INBOUND = ''inbound''"

fun status_value :: "message_status \<Rightarrow> string" where
  "status_value QUEUED = ''queued''"
| "status_value SENDING = ''sending''"
| "status_value SENT = ''sent''"
| "status_value DELIVERED = ''delivered''"
| "status_value FAILED = ''failed''"
| "status_value PUBLISHED = ''published''"
| "status_value RECEIVED = ''received''"

definition TERMINAL_STATUSES :: "message_status list" where
  "TERMINAL_STATUSES = [DELIVERED, FAILED, RECEIVED, PUBLISHED]"

record message =
  mid :: string
  direction :: direction
  status :: message_status
  to_number :: "string option"
  from_number :: "string option"
  body :: string
  service :: string
  idempotency_key :: "string option"
  transport :: transport
  notification_topic :: "string option"
  notification_priority :: int
  attempts :: int
  next_attempt_at :: "instant option"
  provider_message_id :: "string option"
  error :: "string option"
  created_at :: instant
  updated_at :: instant
  sent_at :: "instant option"

record delivery =
  d_id :: string
  d_message_id :: string
  d_subscriber :: string
  d_url :: string
  d_status :: delivery_status
  d_attempts :: int
  d_next_attempt_at :: "instant option"
  d_response_code :: "int option"
  d_error :: "string option"
  d_created_at :: instant
  d_updated_at :: instant

record database =
  messages :: "message list"
  deliveries :: "delivery list"

text \<open>The column defaults of a new \<open>Message(...)\<close>: two readings of the clock.\<close>

definition new_message :: "string \<Rightarrow> instant \<Rightarrow> instant \<Rightarrow> message" where
  "new_message i t_created t_updated =
     \<lparr>mid = i, direction = OUTBOUND, status = QUEUED, to_number = None, from_number = None,
      body = [], service = [], idempotency_key = None, transport = Sms,
      notification_topic = None, notification_priority = 3, attempts = 0,
      next_attempt_at = None, provider_message_id = None, error = None,
      created_at = t_created, updated_at = t_updated, sent_at = None\<rparr>"

definition new_delivery :: "string \<Rightarrow> instant \<Rightarrow> instant \<Rightarrow> delivery" where
  "new_delivery i t_created t_updated =
     \<lparr>d_id = i, d_message_id = [], d_subscriber = [], d_url = [], d_status = Pending,
      d_attempts = 0, d_next_attempt_at = None, d_response_code = None, d_error = None,
      d_created_at = t_created, d_updated_at = t_updated\<rparr>"

subsection \<open>Columns written at a flush\<close>

definition pick :: "'a \<Rightarrow> 'a \<Rightarrow> 'a \<Rightarrow> 'a" where
  "pick old new cur = (if new \<noteq> old then new else cur)"

definition message_changes :: "instant \<Rightarrow> message \<Rightarrow> message \<Rightarrow> message \<Rightarrow> message" where
  "message_changes t old new row =
     row\<lparr>direction := pick (direction old) (direction new) (direction row),
         status := pick (status old) (status new) (status row),
         to_number := pick (to_number old) (to_number new) (to_number row),
         from_number := pick (from_number old) (from_number new) (from_number row),
         body := pick (body old) (body new) (body row),
         service := pick (service old) (service new) (service row),
         idempotency_key := pick (idempotency_key old) (idempotency_key new) (idempotency_key row),
         transport := pick (transport old) (transport new) (transport row),
         notification_topic :=
           pick (notification_topic old) (notification_topic new) (notification_topic row),
         notification_priority :=
           pick (notification_priority old) (notification_priority new) (notification_priority row),
         attempts := pick (attempts old) (attempts new) (attempts row),
         next_attempt_at := pick (next_attempt_at old) (next_attempt_at new) (next_attempt_at row),
         provider_message_id :=
           pick (provider_message_id old) (provider_message_id new) (provider_message_id row),
         error := pick (error old) (error new) (error row),
         created_at := pick (created_at old) (created_at new) (created_at row),
         updated_at := (if updated_at new \<noteq> updated_at old then updated_at new else t),
         sent_at := pick (sent_at old) (sent_at new) (sent_at row)\<rparr>"

definition delivery_changes :: "instant \<Rightarrow> delivery \<Rightarrow> delivery \<Rightarrow> delivery \<Rightarrow> delivery" where
  "delivery_changes t old new row =
     row\<lparr>d_message_id := pick (d_message_id old) (d_message_id new) (d_message_id row),
         d_subscriber := pick (d_subscriber old) (d_subscriber new) (d_subscriber row),
         d_url := pick (d_url old) (d_url new) (d_url row),
         d_status := pick (d_status old) (d_status new) (d_status row),
         d_attempts := pick (d_attempts old) (d_attempts new) (d_attempts row),
         d_next_attempt_at :=
           pick (d_next_attempt_at old) (d_next_attempt_at new) (d_next_attempt_at row),
         d_response_code := pick (d_response_code old) (d_response_code new) (d_response_code row),
         d_error := pick (d_error old) (d_error new) (d_error row),
         d_created_at := pick (d_created_at old) (d_created_at new) (d_created_at row),
         d_updated_at := (if d_updated_at new \<noteq> d_updated_at old then d_updated_at new else t)\<rparr>"

lemma pick_same [simp]: "pick a a c = c" "pick a b a = b"
  by (simp_all add: pick_def)

lemma mid_message_changes [simp]: "mid (message_changes t old new row) = mid row"
  by (simp add: message_changes_def)

lemma message_changes_service:
  "service new = service old \<Longrightarrow> service (message_changes t old new row) = service row"
  "idempotency_key new = idempotency_key old \<Longrightarrow>
   idempotency_key (message_changes t old new row) = idempotency_key row"
  by (simp_all add: message_changes_def)

lemma d_id_delivery_changes [simp]: "d_id (delivery_changes t old new row) = d_id row"
  by (simp add: delivery_changes_def)

text \<open>Written back to the row it was loaded from, an object arrives as it is, stamped.\<close>

lemma message_changes_self:
  "mid new = mid old \<Longrightarrow> updated_at new = updated_at old \<Longrightarrow>
   message_changes t old new old = new\<lparr>updated_at := t\<rparr>"
  by (simp add: message_changes_def)

lemma delivery_changes_self:
  "d_id new = d_id old \<Longrightarrow> d_updated_at new = d_updated_at old \<Longrightarrow>
   delivery_changes t old new old = new\<lparr>d_updated_at := t\<rparr>"
  by (simp add: delivery_changes_def)

subsection \<open>A sample row\<close>

text \<open>The row the witnesses of the properties start from.\<close>

definition sample_message :: message where
  "sample_message = (new_message ''m1'' 0 0)\<lparr>to_number := Some ''+1555'', body := ''hi'', service := ''ops''\<rparr>"

lemmas sample_row = sample_message_def new_message_def

end
