(* ===== verification/Db.thy ===== *)
theory Db
  imports Models
begin

section \<open>The database (db.py, and the session calls of the handlers)\<close>

text \<open>
  Tables are lists of rows in insertion order. The operations are the ones the handlers
  and loops ask of SQLAlchemy and SQLite: \<open>session.get\<close>, \<open>scalar_one_or_none\<close>, the flush
  of changed objects at a commit (\<open>flush_rows\<close>, all or nothing), inserts checked against
  the unique constraints and the foreign key of models.py, and the cascading delete. The
  locale \<open>keyed_table\<close> is what the components rely on; both tables are instances.
  The second half is \<open>init_db\<close>: table creation and the additive column migration.
\<close>

subsection \<open>Rows by primary key\<close>

definition find_row :: "('r \<Rightarrow> string) \<Rightarrow> string \<Rightarrow> 'r list \<Rightarrow> 'r option" where
  "find_row key k rows = List.find (\<lambda>r. key r = k) rows"

definition update_row :: "('r \<Rightarrow> string) \<Rightarrow> string \<Rightarrow> ('r \<Rightarrow> 'r) \<Rightarrow> 'r list \<Rightarrow> 'r list" where
  "update_row key k f rows = map (\<lambda>r. if key r = k then f r else r) rows"

text \<open>
  A flush writes one UPDATE per changed object of the session, each for the row with its
  primary key; an UPDATE that matches no row (deleted meanwhile) raises and the transaction
  is rolled back. The pairs are the objects as loaded and as they are now; \<open>t\<close> gives the
  reading of \<open>utcnow\<close> that stamps each.
\<close>

fun flush_rows ::
  "('r \<Rightarrow> string) \<Rightarrow> (instant \<Rightarrow> 'r \<Rightarrow> 'r \<Rightarrow> 'r \<Rightarrow> 'r) \<Rightarrow> (string \<Rightarrow> instant) \<Rightarrow>
   ('r \<times> 'r) list \<Rightarrow> 'r list \<Rightarrow> 'r list res"
where
  "flush_rows key changes t [] rows = Inr rows"
| "flush_rows key changes t ((old, new) # ps) rows =
     (if new = old then flush_rows key changes t ps rows
      else if find_row key (key old) rows = None then Inl StaleDataError
      else flush_rows key changes t ps
             (update_row key (key old) (changes (t (key old)) old new) rows))"

definition commit_messages ::
  "(string \<Rightarrow> instant) \<Rightarrow> (message \<times> message) list \<Rightarrow> database \<Rightarrow> database res"
where
  "commit_messages t ps db =
     rbind (flush_rows mid message_changes t ps (messages db))
       (\<lambda>rows. Inr (db\<lparr>messages := rows\<rparr>))"

definition commit_deliveries ::
  "(string \<Rightarrow> instant) \<Rightarrow> (delivery \<times> delivery) list \<Rightarrow> database \<Rightarrow> database res"
where
  "commit_deliveries t ps db =
     rbind (flush_rows d_id delivery_changes t ps (deliveries db))
       (\<lambda>rows. Inr (db\<lparr>deliveries := rows\<rparr>))"

definition get_message_row :: "string \<Rightarrow> database \<Rightarrow> message option" where
  "get_message_row i db = find_row mid i (messages db)"

fun scalar_one_or_none :: "'a list \<Rightarrow> 'a option res" where
  "scalar_one_or_none [] = Inr None"
| "scalar_one_or_none [x] = Inr (Some x)"
| "scalar_one_or_none _ = Inl MultipleResultsFound"

subsection \<open>Constraints, inserts, deletes\<close>

definition idem_keys :: "message list \<Rightarrow> (string \<times> string option) list" where
  "idem_keys rows =
     map (\<lambda>m. (service m, idempotency_key m)) (filter (\<lambda>m. idempotency_key m \<noteq> None) rows)"

definition messages_ok :: "message list \<Rightarrow> bool" where
  "messages_ok rows \<longleftrightarrow> distinct (map mid rows) \<and> distinct (idem_keys rows)"

definition deliveries_ok :: "message list \<Rightarrow> delivery list \<Rightarrow> bool" where
  "deliveries_ok ms ds \<longleftrightarrow>
     distinct (map d_id ds) \<and>
     distinct (map (\<lambda>d. (d_message_id d, d_subscriber d)) ds) \<and>
     list_all (\<lambda>d. d_message_id d \<in> set (map mid ms)) ds"

definition db_ok :: "database \<Rightarrow> bool" where
  "db_ok db \<longleftrightarrow> messages_ok (messages db) \<and> deliveries_ok (messages db) (deliveries db)"

lemmas db_ok_defs = db_ok_def messages_ok_def deliveries_ok_def idem_keys_def

definition insert_messages :: "message list \<Rightarrow> database \<Rightarrow> database res" where
  "insert_messages ms db =
     (if messages_ok (messages db @ ms) then Inr (db\<lparr>messages := messages db @ ms\<rparr>)
      else Inl (IntegrityError ''messages''))"

definition insert_deliveries :: "delivery list \<Rightarrow> database \<Rightarrow> database res" where
  "insert_deliveries ds db =
     (if deliveries_ok (messages db) (deliveries db @ ds)
      then Inr (db\<lparr>deliveries := deliveries db @ ds\<rparr>)
      else Inl (IntegrityError ''webhook_deliveries''))"

definition delete_messages :: "(message \<Rightarrow> bool) \<Rightarrow> database \<Rightarrow> database" where
  "delete_messages P db =
     (let gone = map mid (filter P (messages db))
      in db\<lparr>messages := filter (\<lambda>m. \<not> P m) (messages db),
            deliveries := filter (\<lambda>d. d_message_id d \<notin> set gone) (deliveries db)\<rparr>)"

subsection \<open>The interface the components use\<close>

locale keyed_table =
  fixes key :: "'r \<Rightarrow> string"
    and changes :: "instant \<Rightarrow> 'r \<Rightarrow> 'r \<Rightarrow> 'r \<Rightarrow> 'r"
  assumes key_changes: "key (changes t old new row) = key row"
begin

lemma keys_update: "map key (update_row key k (changes t old new) rows) = map key rows"
  by (simp add: update_row_def key_changes)

lemma find_row_None_iff: "find_row key k rows = None \<longleftrightarrow> k \<notin> set (map key rows)"
  by (auto simp: find_row_def find_None_iff)

lemma find_SomeD: "find_row key k rows = Some r \<Longrightarrow> r \<in> set rows \<and> key r = k"
  by (auto simp: find_row_def find_Some_iff)

lemma find_distinct: "distinct (map key rows) \<Longrightarrow> r \<in> set rows \<Longrightarrow> find_row key (key r) rows = Some r"
  by (induction rows) (auto simp: find_row_def)

lemma flush_keys: "flush_rows key changes t ps rows = Inr rows' \<Longrightarrow> map key rows' = map key rows"
proof (induction ps arbitrary: rows)
  case (Cons p ps)
  then show ?case
    by (cases p) (auto simp del: list.map_comp simp: keys_update split: if_splits dest!: Cons.IH)
qed simp

text \<open>
  Objects that are still what their rows are: their flush cannot fail, and replaces exactly
  their rows.
\<close>

definition written :: "(string \<Rightarrow> instant) \<Rightarrow> 'r \<times> 'r \<Rightarrow> 'r" where
  "written t p = (if snd p = fst p then fst p else changes (t (key (fst p))) (fst p) (snd p) (fst p))"

lemma key_written: "key (written t p) = key (fst p)"
  by (simp add: written_def key_changes)

lemma flush_owned:
  assumes "distinct (map key rows)" and "distinct (map (\<lambda>p. key (fst p)) ps)"
    and "\<forall>p \<in> set ps. fst p \<in> set rows"
  shows "\<exists>rows'. flush_rows key changes t ps rows = Inr rows' \<and>
    set rows' = {r \<in> set rows. key r \<notin> (\<lambda>p. key (fst p)) ` set ps} \<union> written t ` set ps"
  using assms
proof (induction ps arbitrary: rows)
  case (Cons p ps)
  obtain old new where p: "p = (old, new)" by (cases p)
  have old: "old \<in> set rows" using Cons.prems(3) p by simp
  define rows1 where "rows1 = (if new = old then rows
    else update_row key (key old) (changes (t (key old)) old new) rows)"
  have same: "r = old" if "r \<in> set rows" "key r = key old" for r
    using that old Cons.prems(1) by (meson distinct_map inj_onD)
  have set1: "set rows1 = {r \<in> set rows. key r \<noteq> key old} \<union> {written t p}"
    using old by (auto simp: rows1_def update_row_def written_def p dest: same)
  have keys1: "map key rows1 = map key rows"
    by (simp add: rows1_def keys_update)
  have kps: "key (fst q) \<noteq> key old" if "q \<in> set ps" for q
    using Cons.prems(2) that p by force
  have "\<forall>q \<in> set ps. fst q \<in> set rows1"
    using Cons.prems(3) kps set1 by auto
  with Cons.IH [of rows1] Cons.prems keys1 obtain rows' where
    r': "flush_rows key changes t ps rows1 = Inr rows'"
      "set rows' = {r \<in> set rows1. key r \<notin> (\<lambda>p. key (fst p)) ` set ps} \<union> written t ` set ps"
    by auto
  have "find_row key (key old) rows \<noteq> None"
    using old by (auto simp: find_row_None_iff)
  then have "flush_rows key changes t (p # ps) rows = Inr rows'"
    using r'(1) by (auto simp: p rows1_def)
  moreover have "key (written t p) \<notin> (\<lambda>p. key (fst p)) ` set ps"
    using kps by (simp add: key_written p image_iff) (metis fst_conv)
  then have "set rows' = {r \<in> set rows. key r \<notin> (\<lambda>p. key (fst p)) ` set (p # ps)} \<union> written t ` set (p # ps)"
    using r'(2) by (auto simp: set1 p)
  ultimately show ?case by blast
qed simp

end

interpretation msg: keyed_table mid message_changes
  by unfold_locales simp

interpretation del: keyed_table d_id delivery_changes
  by unfold_locales simp

subsection \<open>Consistency of the tables\<close>

lemma idem_keys_append [simp]: "idem_keys (a @ b) = idem_keys a @ idem_keys b"
  by (simp add: idem_keys_def)

lemma db_ok_distinct: "db_ok db \<Longrightarrow> distinct (map mid (messages db))"
  by (simp add: db_ok_def messages_ok_def)

lemma insert_messages_ok:
  "insert_messages ms db = Inr db' \<Longrightarrow> db_ok db \<Longrightarrow>
   db_ok db' \<and> messages db' = messages db @ ms \<and> deliveries db' = deliveries db"
  by (auto simp: insert_messages_def db_ok_def deliveries_ok_def list_all_iff image_Un split: if_splits)

lemma insert_deliveries_ok:
  "insert_deliveries ds db = Inr db' \<Longrightarrow> db_ok db \<Longrightarrow>
   db_ok db' \<and> messages db' = messages db \<and> deliveries db' = deliveries db @ ds"
  by (auto simp: insert_deliveries_def db_ok_def split: if_splits)

lemma distinct_idem_keys_filter:
  "distinct (idem_keys rows) \<Longrightarrow> distinct (idem_keys (filter P rows))"
proof -
  let ?Q = "\<lambda>m. idempotency_key m \<noteq> None"
  have "idem_keys (filter P rows) = map (\<lambda>m. (service m, idempotency_key m)) (filter P (filter ?Q rows))"
    by (simp add: idem_keys_def conj_commute)
  then show "distinct (idem_keys rows) \<Longrightarrow> ?thesis"
    by (simp only: idem_keys_def distinct_map_filter)
qed

lemma delete_messages_ok: "db_ok db \<Longrightarrow> db_ok (delete_messages P db)"
  by (auto simp: db_ok_def messages_ok_def deliveries_ok_def delete_messages_def Let_def
      distinct_map_filter distinct_idem_keys_filter list_all_iff)

lemma idem_keys_update:
  "(\<And>m. service (f m) = service m \<and> idempotency_key (f m) = idempotency_key m) \<Longrightarrow>
   idem_keys (update_row mid k f rows) = idem_keys rows"
  by (induction rows) (auto simp: idem_keys_def update_row_def)

lemma flush_idem_keys:
  "flush_rows mid message_changes t ps rows = Inr rows' \<Longrightarrow>
   \<forall>p \<in> set ps. service (snd p) = service (fst p) \<and> idempotency_key (snd p) = idempotency_key (fst p) \<Longrightarrow>
   idem_keys rows' = idem_keys rows"
proof (induction ps arbitrary: rows)
  case (Cons p ps)
  obtain old new where p: "p = (old, new)" by (cases p)
  let ?f = "message_changes (t (mid old)) old new"
  have key: "service (?f m) = service m \<and> idempotency_key (?f m) = idempotency_key m" for m
    using Cons.prems(2) p by (simp add: message_changes_service)
  show ?case
  proof (cases "new = old")
    case True
    with Cons p show ?thesis by simp
  next
    case False
    with Cons.prems(1) p have "flush_rows mid message_changes t ps (update_row mid (mid old) ?f rows) = Inr rows'"
      by (simp split: if_splits)
    then have "idem_keys rows' = idem_keys (update_row mid (mid old) ?f rows)"
      using Cons.prems(2) by (intro Cons.IH) auto
    then show ?thesis by (simp add: idem_keys_update [OF key])
  qed
qed simp

lemma deliveries_ok_keys:
  "map mid ms' = map mid ms \<Longrightarrow> deliveries_ok ms' ds = deliveries_ok ms ds"
  by (simp add: deliveries_ok_def)

lemma commit_messages_ok:
  assumes "commit_messages t ps db = Inr db'" and "db_ok db"
    and "\<forall>p \<in> set ps. service (snd p) = service (fst p) \<and> idempotency_key (snd p) = idempotency_key (fst p)"
  shows "db_ok db' \<and> deliveries db' = deliveries db \<and> map mid (messages db') = map mid (messages db)"
proof -
  obtain rs where fl: "flush_rows mid message_changes t ps (messages db) = Inr rs"
    and db': "db' = db\<lparr>messages := rs\<rparr>"
    using assms(1) by (auto simp: commit_messages_def res_simps)
  have "map mid rs = map mid (messages db)" by (rule msg.flush_keys [OF fl])
  moreover have "idem_keys rs = idem_keys (messages db)" by (rule flush_idem_keys [OF fl assms(3)])
  moreover from calculation(1) have "deliveries_ok rs ds = deliveries_ok (messages db) ds" for ds
    by (rule deliveries_ok_keys)
  ultimately show ?thesis
    using assms(2) by (simp add: db' db_ok_def messages_ok_def)
qed

text \<open>A commit of objects the session still owns, in terms of the rows it leaves.\<close>

lemma commit_owned:
  assumes "db_ok db" and "distinct (map (\<lambda>p. mid (fst p)) ps)"
    and "\<forall>p \<in> set ps. fst p \<in> set (messages db)"
  shows "\<exists>db'. commit_messages t ps db = Inr db' \<and> deliveries db' = deliveries db \<and>
    set (messages db') =
      {m \<in> set (messages db). mid m \<notin> (\<lambda>p. mid (fst p)) ` set ps} \<union> msg.written t ` set ps"
proof -
  obtain rs where "flush_rows mid message_changes t ps (messages db) = Inr rs"
    "set rs = {m \<in> set (messages db). mid m \<notin> (\<lambda>p. mid (fst p)) ` set ps} \<union> msg.written t ` set ps"
    using msg.flush_owned [OF db_ok_distinct [OF assms(1)] assms(2,3)] by blast
  then show ?thesis by (intro exI [of _ "db\<lparr>messages := rs\<rparr>"]) (auto simp: commit_messages_def)
qed

lemma commit_deliveries_owned:
  assumes "db_ok db" and "distinct (map (\<lambda>p. d_id (fst p)) ps)"
    and "\<forall>p \<in> set ps. fst p \<in> set (deliveries db)"
  shows "\<exists>db'. commit_deliveries t ps db = Inr db' \<and> messages db' = messages db \<and>
    set (deliveries db') =
      {d \<in> set (deliveries db). d_id d \<notin> (\<lambda>p. d_id (fst p)) ` set ps} \<union> del.written t ` set ps"
proof -
  have "distinct (map d_id (deliveries db))" using assms(1) by (simp add: db_ok_def deliveries_ok_def)
  then obtain rs where "flush_rows d_id delivery_changes t ps (deliveries db) = Inr rs"
    "set rs = {d \<in> set (deliveries db). d_id d \<notin> (\<lambda>p. d_id (fst p)) ` set ps} \<union> del.written t ` set ps"
    using del.flush_owned [OF _ assms(2,3)] by blast
  then show ?thesis by (intro exI [of _ "db\<lparr>deliveries := rs\<rparr>"]) (auto simp: commit_deliveries_def)
qed

text \<open>The answer of a lookup by idempotency key is unique in a consistent table.\<close>

lemma idem_lookup_le1:
  "distinct (idem_keys rows) \<Longrightarrow>
   length (filter (\<lambda>m. service m = s \<and> idempotency_key m = Some k) rows) \<le> 1"
proof (induction rows)
  case (Cons m rows)
  have "(s, Some k) \<notin> set (idem_keys rows) \<Longrightarrow>
        filter (\<lambda>m. service m = s \<and> idempotency_key m = Some k) rows = []"
    by (auto simp: idem_keys_def filter_empty_conv image_iff)
  with Cons show ?case by (auto simp: idem_keys_def split: if_splits)
qed simp

subsection \<open>Schema creation and migration\<close>

text \<open>
  \<open>init_db\<close> works on the stored schema rather than on ORM rows: a table has its column
  names and its rows, each a list of named values.
\<close>

datatype sql_value = SqlNull | SqlInt int | SqlText string

record sql_table =
  t_columns :: "string list"
  t_rows :: "(string \<times> sql_value) list list"

record schema =
  messages_table :: "sql_table option"
  deliveries_table :: "sql_table option"

definition MESSAGE_COLUMNS :: "string list" where
  "MESSAGE_COLUMNS =
     [''id'', ''direction'', ''status'', ''to_number'', ''from_number'', ''body'', ''service'',
      ''idempotency_key'', ''transport'', ''notification_topic'', ''notification_priority'',
      ''attempts'', ''next_attempt_at'', ''provider_message_id'', ''error'', ''created_at'',
      ''updated_at'', ''sent_at'']"

definition DELIVERY_COLUMNS :: "string list" where
  "DELIVERY_COLUMNS =
     [''id'', ''message_id'', ''subscriber'', ''url'', ''status'', ''attempts'',
      ''next_attempt_at'', ''response_code'', ''error'', ''created_at'', ''updated_at'']"

text \<open>\<open>create_all\<close> creates the tables that do not exist and leaves the others alone.\<close>

definition create_all :: "schema \<Rightarrow> schema" where
  "create_all s =
     s\<lparr>messages_table :=
         Some (case messages_table s of Some t \<Rightarrow> t | None \<Rightarrow> \<lparr>t_columns = MESSAGE_COLUMNS, t_rows = []\<rparr>),
       deliveries_table :=
         Some (case deliveries_table s of Some t \<Rightarrow> t | None \<Rightarrow> \<lparr>t_columns = DELIVERY_COLUMNS, t_rows = []\<rparr>)\<rparr>"

text \<open>\<open>ALTER TABLE ... ADD COLUMN c ... DEFAULT d\<close>: every existing row reads the default.\<close>

definition add_column :: "string \<Rightarrow> sql_value \<Rightarrow> sql_table \<Rightarrow> sql_table" where
  "add_column c d t = t\<lparr>t_columns := t_columns t @ [c], t_rows := map (\<lambda>r. r @ [(c, d)]) (t_rows t)\<rparr>"

definition migrate_messages :: "sql_table \<Rightarrow> sql_table" where
  "migrate_messages t =
     (let cols = t_columns t;
          t1 = (if ''transport'' \<notin> set cols then add_column ''transport'' (SqlText ''sms'') t else t);
          t2 = (if ''notification_topic'' \<notin> set cols then add_column ''notification_topic'' SqlNull t1 else t1)
      in if ''notification_priority'' \<notin> set cols
         then add_column ''notification_priority'' (SqlInt 3) t2 else t2)"

definition init_db :: "schema \<Rightarrow> schema" where
  "init_db s =
     (let s1 = create_all s
      in s1\<lparr>messages_table := map_option migrate_messages (messages_table s1)\<rparr>)"

definition read_column :: "string \<Rightarrow> (string \<times> sql_value) list \<Rightarrow> sql_value option" where
  "read_column c r = map_of r c"

lemma columns_migrate:
  "set (t_columns (migrate_messages t)) =
   set (t_columns t) \<union> {''transport'', ''notification_topic'', ''notification_priority''}"
  by (auto simp: migrate_messages_def add_column_def Let_def)

lemma migrate_noop:
  "{''transport'', ''notification_topic'', ''notification_priority''} \<subseteq> set (t_columns t) \<Longrightarrow>
   migrate_messages t = t"
  by (auto simp: migrate_messages_def Let_def)

lemma migrate_idem: "migrate_messages (migrate_messages t) = migrate_messages t"
  by (rule migrate_noop) (auto simp: columns_migrate)

lemma length_rows_migrate: "length (t_rows (migrate_messages t)) = length (t_rows t)"
  by (simp add: migrate_messages_def add_column_def Let_def)

subsection \<open>Properties\<close>

lemma read_add_column:
  "read_column c (r @ [(c', d)]) = (if c = c' \<and> c \<notin> fst ` set r then Some d else read_column c r)"
proof (cases "c \<in> fst ` set r")
  case True
  then obtain v where "map_of r c = Some v" by (auto dest: weak_map_of_SomeI)
  with True show ?thesis by (simp add: read_column_def)
next
  case False
  then have "map_of r c = None" by (simp add: map_of_eq_None_iff)
  with False show ?thesis by (simp add: read_column_def map_add_def)
qed

text \<open>A migrated row has the columns of its table, reads as before, and reads the defaults elsewhere.\<close>

definition added_columns :: "(string \<times> sql_value) list" where
  "added_columns =
     [(''transport'', SqlText ''sms''), (''notification_topic'', SqlNull), (''notification_priority'', SqlInt 3)]"

lemma add_column_step:
  fixes d :: sql_value
  assumes "\<forall>r \<in> set (t_rows t). map fst r = t_columns t" and "b \<Longrightarrow> c' \<notin> set (t_columns t)"
  defines "t' \<equiv> (if b then add_column c' d t else t)"
  shows "(\<forall>r \<in> set (t_rows t'). map fst r = t_columns t') \<and> length (t_rows t') = length (t_rows t) \<and>
    set (t_columns t') = set (t_columns t) \<union> (if b then {c'} else {}) \<and>
    (\<forall>i < length (t_rows t). read_column c (t_rows t' ! i) =
       (if b \<and> c = c' then Some d else read_column c (t_rows t ! i)))"
proof (cases b)
  case True
  have "fst ` set (t_rows t ! i) = set (t_columns t)" if "i < length (t_rows t)" for i
    using assms(1) that by (metis list.set_map nth_mem)
  with True assms(1,2) show ?thesis by (simp add: t'_def add_column_def read_add_column)
qed (use assms in simp)

lemma three_columns:
  fixes t :: sql_table and k1 k2 k3 :: string and d1 d2 d3 :: sql_value
  defines "t1 \<equiv> (if k1 \<notin> set (t_columns t) then add_column k1 d1 t else t)"
  defines "t2 \<equiv> (if k2 \<notin> set (t_columns t) then add_column k2 d2 t1 else t1)"
  defines "t3 \<equiv> (if k3 \<notin> set (t_columns t) then add_column k3 d3 t2 else t2)"
  assumes rows: "\<forall>r \<in> set (t_rows t). map fst r = t_columns t" and i: "i < length (t_rows t)"
    and k: "k2 \<noteq> k1" "k3 \<noteq> k1" "k3 \<noteq> k2"
  shows "read_column c (t_rows t3 ! i) =
    (if c \<in> set (t_columns t) then read_column c (t_rows t ! i) else map_of [(k1, d1), (k2, d2), (k3, d3)] c)"
proof -
  let ?n = "\<lambda>k. k \<notin> set (t_columns t)"
  have s1: "(\<forall>r \<in> set (t_rows t1). map fst r = t_columns t1) \<and> length (t_rows t1) = length (t_rows t) \<and>
      set (t_columns t1) = set (t_columns t) \<union> (if ?n k1 then {k1} else {}) \<and>
      (\<forall>i < length (t_rows t). read_column c (t_rows t1 ! i) =
        (if ?n k1 \<and> c = k1 then Some d1 else read_column c (t_rows t ! i)))"
    unfolding t1_def by (rule add_column_step [OF rows])
  then have n2: "?n k2 \<Longrightarrow> k2 \<notin> set (t_columns t1)" using k by auto
  have s2: "(\<forall>r \<in> set (t_rows t2). map fst r = t_columns t2) \<and> length (t_rows t2) = length (t_rows t1) \<and>
      set (t_columns t2) = set (t_columns t1) \<union> (if ?n k2 then {k2} else {}) \<and>
      (\<forall>i < length (t_rows t1). read_column c (t_rows t2 ! i) =
        (if ?n k2 \<and> c = k2 then Some d2 else read_column c (t_rows t1 ! i)))"
    unfolding t2_def by (rule add_column_step [OF conjunct1 [OF s1] n2])
  then have n3: "?n k3 \<Longrightarrow> k3 \<notin> set (t_columns t2)" using k s1 by auto
  have s3: "(\<forall>r \<in> set (t_rows t3). map fst r = t_columns t3) \<and> length (t_rows t3) = length (t_rows t2) \<and>
      set (t_columns t3) = set (t_columns t2) \<union> (if ?n k3 then {k3} else {}) \<and>
      (\<forall>i < length (t_rows t2). read_column c (t_rows t3 ! i) =
        (if ?n k3 \<and> c = k3 then Some d3 else read_column c (t_rows t2 ! i)))"
    unfolding t3_def by (rule add_column_step [OF conjunct1 [OF s2] n3])
  have "read_column c (t_rows t ! i) = None" if "?n c"
    using rows i that by (metis list.set_map map_of_eq_None_iff nth_mem read_column_def)
  moreover have "read_column c (t_rows t1 ! i) = (if ?n k1 \<and> c = k1 then Some d1 else read_column c (t_rows t ! i))"
    using s1 i by metis
  moreover have "read_column c (t_rows t2 ! i) = (if ?n k2 \<and> c = k2 then Some d2 else read_column c (t_rows t1 ! i))"
    using s1 s2 i by metis
  moreover have "read_column c (t_rows t3 ! i) = (if ?n k3 \<and> c = k3 then Some d3 else read_column c (t_rows t2 ! i))"
    using s1 s2 s3 i by metis
  ultimately show ?thesis
    using k by (cases "c = k1"; cases "c = k2"; cases "c = k3") simp_all
qed

lemma migrate_rows:
  assumes "\<forall>r \<in> set (t_rows t). map fst r = t_columns t" and "i < length (t_rows t)"
  shows "read_column c (t_rows (migrate_messages t) ! i) =
    (if c \<in> set (t_columns t) then read_column c (t_rows t ! i) else map_of added_columns c)"
  unfolding migrate_messages_def added_columns_def Let_def
  by (rule three_columns [OF assms]) simp_all

text \<open>
  C40. Start-up upgrades an older database in place and loses nothing: afterwards the table
  has every column the service uses, the same rows read the same in the old columns and the
  declared defaults (sms, no topic, priority 3) in the new ones, and a second start changes
  nothing more.
\<close>

theorem init_db_migrates:
  assumes "messages_table s = Some t" and "\<forall>r \<in> set (t_rows t). map fst r = t_columns t"
    and "set MESSAGE_COLUMNS - fst ` set added_columns \<subseteq> set (t_columns t)"
  shows "\<exists>t'. messages_table (init_db s) = Some t' \<and> set MESSAGE_COLUMNS \<subseteq> set (t_columns t') \<and>
    length (t_rows t') = length (t_rows t) \<and>
    (\<forall>i < length (t_rows t). \<forall>c.
       read_column c (t_rows t' ! i) =
         (if c \<in> set (t_columns t) then read_column c (t_rows t ! i) else map_of added_columns c)) \<and>
    init_db (init_db s) = init_db s"
proof (intro exI conjI)
  show "messages_table (init_db s) = Some (migrate_messages t)"
    using assms(1) by (simp add: init_db_def create_all_def Let_def)
  show "init_db (init_db s) = init_db s"
    using assms(1) by (simp add: init_db_def create_all_def Let_def migrate_idem split: option.splits)
  show "set MESSAGE_COLUMNS \<subseteq> set (t_columns (migrate_messages t))"
    using assms(3) by (auto simp: columns_migrate added_columns_def)
qed (use assms(2) in \<open>simp_all add: length_rows_migrate migrate_rows\<close>)

definition sample_schema :: schema where
  "sample_schema =
     \<lparr>messages_table =
        Some \<lparr>t_columns = filter (\<lambda>c. c \<notin> fst ` set added_columns) MESSAGE_COLUMNS,
              t_rows = [map (\<lambda>c. (c, SqlText c)) (filter (\<lambda>c. c \<notin> fst ` set added_columns) MESSAGE_COLUMNS)]\<rparr>,
      deliveries_table = None\<rparr>"

theorem init_db_migrates_witness:
  "\<exists>t'. messages_table (init_db sample_schema) = Some t' \<and>
     read_column ''transport'' (t_rows t' ! 0) = Some (SqlText ''sms'') \<and>
     read_column ''body'' (t_rows t' ! 0) = Some (SqlText ''body'') \<and>
     init_db (init_db sample_schema) = init_db sample_schema"
proof -
  define cols where "cols = filter (\<lambda>c. c \<notin> fst ` set added_columns) MESSAGE_COLUMNS"
  define t where "t = \<lparr>t_columns = cols, t_rows = [map (\<lambda>c. (c, SqlText c)) cols]\<rparr>"
  have cols: "''transport'' \<notin> set cols" "''body'' \<in> set cols"
    "map_of added_columns ''transport'' = Some (SqlText ''sms'')"
    "read_column ''body'' (map (\<lambda>c. (c, SqlText c)) cols) = Some (SqlText ''body'')"
    unfolding cols_def by code_simp+
  have s: "messages_table sample_schema = Some t" by (simp add: sample_schema_def t_def cols_def)
  have "\<forall>r \<in> set (t_rows t). map fst r = t_columns t" by (simp add: t_def comp_def)
  moreover have "set MESSAGE_COLUMNS - fst ` set added_columns \<subseteq> set (t_columns t)"
    by (auto simp: t_def cols_def)
  ultimately obtain t' where t': "messages_table (init_db sample_schema) = Some t'"
    "init_db (init_db sample_schema) = init_db sample_schema"
    "\<forall>i < length (t_rows t). \<forall>c. read_column c (t_rows t' ! i) =
       (if c \<in> set (t_columns t) then read_column c (t_rows t ! i) else map_of added_columns c)"
    using init_db_migrates [OF s] by blast
  have "read_column c (t_rows t' ! 0) =
      (if c \<in> set cols then read_column c (map (\<lambda>c. (c, SqlText c)) cols) else map_of added_columns c)" for c
    using t'(3) by (simp add: t_def)
  with t' cols show ?thesis by simp
qed

end
