(* ===== verification/Config.thy ===== *)
theory Config
  imports PyJson
begin

section \<open>Runtime configuration (config.py)\<close>

text \<open>
  The settings read from the environment. \<open>environ\<close> is \<open>os.environ\<close>; \<open>loads\<close> stands for
  \<open>json.loads\<close> on text, \<open>None\<close> where it raises \<open>JSONDecodeError\<close>. The three properties of
  \<open>Settings\<close> that parse JSON on every access are fields of \<open>config\<close>, holding what the
  property returns, or raises, for the environment in force.
\<close>

type_synonym environ = "string \<Rightarrow> string option"
type_synonym json_loads = "string \<Rightarrow> json option"

definition env_str :: "environ \<Rightarrow> string \<Rightarrow> string \<Rightarrow> string" where
  "env_str environ key dflt = strip (case environ key of None \<Rightarrow> dflt | Some v \<Rightarrow> v)"

definition env_int :: "environ \<Rightarrow> string \<Rightarrow> int \<Rightarrow> int" where
  "env_int environ key dflt =
     (let raw = env_str environ key []
      in if raw = [] then dflt
         else case py_int raw of None \<Rightarrow> dflt | Some n \<Rightarrow> n)"

definition env_json :: "json_loads \<Rightarrow> environ \<Rightarrow> string \<Rightarrow> json \<Rightarrow> json" where
  "env_json loads environ key dflt =
     (let raw = env_str environ key []
      in if raw = [] then dflt
         else case loads raw of None \<Rightarrow> dflt | Some v \<Rightarrow> v)"

record subscriber =
  s_name :: string
  s_url :: string
  s_secret :: string
  s_events :: "json list"

record settings =
  db_path :: string
  provider_name :: string
  gateway_url :: string
  gateway_user :: string
  gateway_password :: string
  default_region :: string
  rate_limit_per_minute :: int
  max_attempts :: int
  webhook_secret :: string
  public_url :: string
  dev_output_dir :: string
  stuck_after_seconds :: int
  retention_days :: int
  ntfy_url :: string
  ntfy_user :: string
  ntfy_password :: string

record config = settings +
  notification_routes :: "(string \<times> json) list"
  api_keys :: "(string \<times> string) list"
  subscribers :: "subscriber list res"

definition routes_of :: "json \<Rightarrow> (string \<times> json) list" where
  "routes_of v = (if is_dict v then the_dict v else [])"

text \<open>Assignment to a key of a dict keeps the position of a key that is already there.\<close>

fun dict_set :: "'k \<Rightarrow> 'v \<Rightarrow> ('k \<times> 'v) list \<Rightarrow> ('k \<times> 'v) list" where
  "dict_set k v [] = [(k, v)]"
| "dict_set k v ((k', v') # d) = (if k' = k then (k, v) # d else (k', v') # dict_set k v d)"

definition api_keys_of :: "json \<Rightarrow> (string \<times> string) list" where
  "api_keys_of configured =
     (if \<not> is_dict configured then []
      else foldl (\<lambda>d (name, key). if truthy key then dict_set (py_str key) name d else d)
             [] (the_dict configured))"

text \<open>\<open>tuple(v)\<close>: the elements of a list, the characters of a string, the keys of a dict.\<close>

fun py_tuple :: "json \<Rightarrow> json list res" where
  "py_tuple (JList xs) = Inr xs"
| "py_tuple (JStr s) = Inr (map (\<lambda>c. JStr [c]) s)"
| "py_tuple (JObj kvs) = Inr (map (\<lambda>(k, _). JStr k) kvs)"
| "py_tuple _ = Inl (TypeError ''object is not iterable'')"

definition default_events :: json where
  "default_events = JList [JStr ''message.received'']"

definition subscriber_of :: "(string \<times> json) list \<Rightarrow> subscriber res" where
  "subscriber_of entry =
     rbind (py_tuple (jor (jget entry ''events'') default_events))
       (\<lambda>events. Inr \<lparr>s_name = py_str (jor (jget entry ''name'') (jget entry ''url'')),
                       s_url = py_str (jget entry ''url''),
                       s_secret = py_str (jget_or entry ''secret'' (JStr [])),
                       s_events = events\<rparr>)"

definition well_formed_entry :: "json \<Rightarrow> bool" where
  "well_formed_entry entry \<longleftrightarrow> is_dict entry \<and> truthy (jget (the_dict entry) ''url'')"

definition subscribers_of :: "json \<Rightarrow> subscriber list res" where
  "subscribers_of raw =
     (case raw of
        JList entries \<Rightarrow> mapR (\<lambda>e. subscriber_of (the_dict e)) (filter well_formed_entry entries)
      | _ \<Rightarrow> Inr [])"

definition load_config :: "json_loads \<Rightarrow> environ \<Rightarrow> config" where
  "load_config loads environ =
     \<lparr>db_path = env_str environ ''SMS_RELAY_DB_PATH'' ''/data/sms-relay.db'',
      provider_name = env_str environ ''SMS_RELAY_PROVIDER'' ''android_gateway'',
      gateway_url = rstrip_slash (env_str environ ''SMS_RELAY_GATEWAY_URL'' []),
      gateway_user = env_str environ ''SMS_RELAY_GATEWAY_USER'' [],
      gateway_password = env_str environ ''SMS_RELAY_GATEWAY_PASSWORD'' [],
      default_region = env_str environ ''SMS_RELAY_DEFAULT_REGION'' ''US'',
      rate_limit_per_minute = env_int environ ''SMS_RELAY_RATE_LIMIT_PER_MINUTE'' 30,
      max_attempts = env_int environ ''SMS_RELAY_MAX_ATTEMPTS'' 5,
      webhook_secret = env_str environ ''SMS_RELAY_WEBHOOK_SECRET'' [],
      public_url = rstrip_slash (env_str environ ''SMS_RELAY_PUBLIC_URL'' []),
      dev_output_dir = env_str environ ''SMS_RELAY_DEV_OUTPUT_DIR'' ''/tmp/sms-relay'',
      stuck_after_seconds = env_int environ ''SMS_RELAY_STUCK_AFTER_SECONDS'' 120,
      retention_days = env_int environ ''SMS_RELAY_RETENTION_DAYS'' 90,
      ntfy_url = env_str environ ''SMS_RELAY_NTFY_URL'' [],
      ntfy_user = env_str environ ''SMS_RELAY_NTFY_USER'' ''alerts'',
      ntfy_password = env_str environ ''SMS_RELAY_NTFY_PASSWORD'' [],
      notification_routes = routes_of (env_json loads environ ''SMS_RELAY_NOTIFICATION_ROUTES'' (JObj [])),
      api_keys = api_keys_of (env_json loads environ ''SMS_RELAY_API_KEYS'' (JObj [])),
      subscribers = subscribers_of (env_json loads environ ''SMS_RELAY_SUBSCRIBERS'' (JList []))\<rparr>"

subsection \<open>Facts\<close>

lemma map_of_dict_set [simp]: "map_of (dict_set k v d) = (map_of d)(k \<mapsto> v)"
  by (induction k v d rule: dict_set.induct) (auto simp: fun_eq_iff)

lemma fst_dict_set: "fst ` set (dict_set k v d) = insert k (fst ` set d)"
  by (induction k v d rule: dict_set.induct) auto

lemma distinct_dict_set: "distinct (map fst d) \<Longrightarrow> distinct (map fst (dict_set k v d))"
  by (induction k v d rule: dict_set.induct) (auto simp: fst_dict_set)

abbreviation add_key :: "(string \<times> string) list \<Rightarrow> string \<times> json \<Rightarrow> (string \<times> string) list" where
  "add_key d p \<equiv> (case p of (name, key) \<Rightarrow> if truthy key then dict_set (py_str key) name d else d)"

lemma distinct_add_keys: "distinct (map fst d) \<Longrightarrow> distinct (map fst (foldl add_key d kvs))"
  by (induction kvs arbitrary: d) (auto simp: distinct_dict_set split: prod.splits)

lemma distinct_api_keys: "distinct (map fst (api_keys_of configured))"
  by (simp add: api_keys_of_def distinct_add_keys)

lemma map_of_add_keys:
  "map_of (foldl add_key d kvs) k =
     (case find (\<lambda>(_, v). truthy v \<and> py_str v = k) (rev kvs) of
        None \<Rightarrow> map_of d k | Some (name, _) \<Rightarrow> Some name)"
proof (induction kvs rule: rev_induct)
  case (snoc p kvs)
  then show ?case by (cases p) (auto split: option.splits)
qed simp

lemma keys_add_keys:
  "fst ` set (foldl add_key d kvs) = fst ` set d \<union> {py_str v | n v. (n, v) \<in> set kvs \<and> truthy v}"
proof (induction kvs arbitrary: d)
  case (Cons p kvs)
  then show ?case by (cases p) (auto simp: fst_dict_set)
qed simp

text \<open>The configuration the witnesses of the properties run under.\<close>

definition sample_config :: config where
  "sample_config =
     \<lparr>db_path = ''/data/sms-relay.db'', provider_name = ''android_gateway'', gateway_url = ''http://phone:8080'',
      gateway_user = ''u'', gateway_password = ''p'', default_region = ''US'', rate_limit_per_minute = 30,
      max_attempts = 2, webhook_secret = ''w'', public_url = [], dev_output_dir = ''/tmp/sms-relay'',
      stuck_after_seconds = 120, retention_days = 90, ntfy_url = ''http://ntfy'', ntfy_user = ''alerts'',
      ntfy_password = [],
      notification_routes = [(''ops'', JObj [(''to'', JStr ''+1555''), (''topic'', JStr ''oncall'')])],
      api_keys = [(''k1'', ''ops'')],
      subscribers = Inr [\<lparr>s_name = ''app'', s_url = ''http://app'', s_secret = ''x'',
                          s_events = [JStr ''message.received'']\<rparr>]\<rparr>"

subsection \<open>Properties\<close>

lemma strip_pad:
  assumes "list_all is_space pre" "list_all is_space post" "s \<noteq> []" "\<not> is_space (hd s)" "\<not> is_space (last s)"
  shows "strip (pre @ s @ post) = s"
proof -
  have "dropWhile is_space (pre @ s @ post) = s @ post"
    using assms by (cases s) (auto simp: dropWhile_append2 list_all_iff)
  moreover have "dropWhile is_space (rev post @ rev s) = rev s"
    using assms(2,3,5) by (cases s rule: rev_cases) (auto simp: dropWhile_append2 list_all_iff dropWhile_append3)
  ultimately show ?thesis by (simp add: strip_def dropWhile_end_def)
qed

lemma is_dec_not_space: "is_dec c \<Longrightarrow> \<not> is_space c"
  by (auto simp: is_dec_def is_space_def)

lemma dec_int_ends: "dec_int n \<noteq> [] \<and> \<not> is_space (hd (dec_int n)) \<and> \<not> is_space (last (dec_int n))"
proof -
  have "is_dec (last (dec_nat k))" for k
    using dec_nat_digits [of k] by (simp add: list_all_iff)
  moreover have "\<not> is_space CHR ''-''" by (simp add: is_space_def codepoint_def)
  ultimately show ?thesis by (simp add: dec_int_def is_dec_not_space dec_nat_hd)
qed

text \<open>
  An integer setting is read back exactly: a variable that holds the decimal text of n,
  with any white space around it, configures n, whatever the default.
\<close>

lemma env_int_roundtrip:
  assumes "environ key = Some (pre @ dec_int n @ post)" and "list_all is_space pre" "list_all is_space post"
    and "length (dec_int n) \<le> 4300"
  shows "env_int environ key dflt = n"
proof -
  have "env_str environ key [] = dec_int n"
    using assms(1) strip_pad [OF assms(2,3)] dec_int_ends [of n] by (simp add: env_str_def)
  then show ?thesis
    using py_int_dec_int [OF assms(4)] dec_int_ends [of n] by (simp add: env_int_def)
qed

text \<open>A subscriber whose events cannot be iterated makes every reading of the list raise.\<close>

lemma events_not_iterable_raises:
  "\<exists>msg. subscribers_of (JList [JObj [(''url'', JStr ''http://app''), (''events'', JInt 5)]]) = Inl (TypeError msg)"
  by (simp add: subscribers_of_def well_formed_entry_def subscriber_of_def jor_def jget_def)

end
