(* ===== verification/Phone.thy ===== *)
theory Phone
  imports Config
begin

section \<open>Phone numbers (phone.py)\<close>

text \<open>
  libphonenumber is not part of the repository: its three functions are the fields of a
  \<open>phonelib\<close>, over whatever type \<open>'n\<close> it parses numbers into. \<open>pl_parse\<close> yields \<open>Inl\<close> of the
  message of a \<open>NumberParseException\<close>.
\<close>

record 'n phonelib =
  pl_parse :: "string \<Rightarrow> string \<Rightarrow> string + 'n"
  pl_is_valid :: "'n \<Rightarrow> bool"
  pl_e164 :: "'n \<Rightarrow> string"

definition normalize :: "'n phonelib \<Rightarrow> ('a) settings_scheme \<Rightarrow> string \<Rightarrow> string option \<Rightarrow> string res" where
  "normalize lib cfg raw region =
     (if raw = [] \<or> strip raw = [] then Inl (InvalidPhoneNumber ''phone number is empty'')
      else
        let candidate = strip raw;
            reg = (case region of Some r \<Rightarrow> if r = [] then default_region cfg else r
                                | None \<Rightarrow> default_region cfg)
        in case pl_parse lib candidate reg of
             Inl msg \<Rightarrow>
               Inl (InvalidPhoneNumber (''could not parse '' @ repr_str candidate @ '': '' @ msg))
           | Inr parsed \<Rightarrow>
               if \<not> pl_is_valid lib parsed
               then Inl (InvalidPhoneNumber (repr_str candidate @ '' is not a valid phone number''))
               else Inr (pl_e164 lib parsed))"

text \<open>The same function on a value of any type, as callers with parsed JSON use it.\<close>

definition normalize_value :: "'n phonelib \<Rightarrow> ('a) settings_scheme \<Rightarrow> json \<Rightarrow> string res" where
  "normalize_value lib cfg raw =
     (if \<not> truthy raw then Inl (InvalidPhoneNumber ''phone number is empty'')
      else case raw of
             JStr s \<Rightarrow> normalize lib cfg s None
           | _ \<Rightarrow> Inl (AttributeError ''strip''))"

definition redact :: "string option \<Rightarrow> string" where
  "redact number =
     (case number of
        None \<Rightarrow> ''<none>''
      | Some n \<Rightarrow>
          if n = [] then ''<none>''
          else let digits = filter isdigit n
               in if length digits \<le> 4 then replicate (length digits) CHR ''*''
                  else replicate (length digits - 4) CHR ''*'' @ drop (length digits - 4) digits)"

subsection \<open>Facts\<close>

lemma normalize_Inl:
  "normalize lib cfg raw region = Inl e \<Longrightarrow> \<exists>msg. e = InvalidPhoneNumber msg"
  by (auto simp: normalize_def Let_def split: if_splits sum.splits)

lemma isdigit_star [simp]: "\<not> isdigit CHR ''*''"
  by (simp add: isdigit_def codepoint_def)

text \<open>A libphonenumber that takes every text as it is, for the witnesses.\<close>

definition sample_lib :: "string phonelib" where
  "sample_lib = \<lparr>pl_parse = (\<lambda>s _. Inr s), pl_is_valid = (\<lambda>n. n \<noteq> []), pl_e164 = (\<lambda>n. n)\<rparr>"

subsection \<open>Properties\<close>

text \<open>
  What the logs show of a number reveals no more than its last four digits: the text is
  as long as the number has digits, all but at most its last four characters are stars, and
  what is not a star is the tail of the number's digits.
\<close>

lemma redact_reveals_four:
  assumes "n \<noteq> []"
  shows "length (redact (Some n)) = length (filter isdigit n) \<and>
    length (filter isdigit (redact (Some n))) \<le> 4 \<and>
    (\<exists>k. redact (Some n) = replicate k CHR ''*'' @ drop k (filter isdigit n))"
proof -
  let ?ds = "filter isdigit n"
  have "filter isdigit ?ds = ?ds" by simp
  then have "filter isdigit (drop j ?ds) = drop j ?ds" for j
    by (auto simp: filter_id_conv dest: in_set_dropD)
  moreover have "redact (Some n) = (if length ?ds \<le> 4 then replicate (length ?ds) CHR ''*'' @ drop (length ?ds) ?ds
      else replicate (length ?ds - 4) CHR ''*'' @ drop (length ?ds - 4) ?ds)"
    using assms by (simp add: redact_def Let_def)
  ultimately show ?thesis by (cases "length ?ds \<le> 4") (auto intro: exI [of _ "length ?ds"])
qed

end
