(* ===== verification/Auth.thy ===== *)
theory Auth
  imports Config
begin

section \<open>Authentication (auth.py)\<close>

text \<open>
  The two guards of the API. HMAC-SHA256 is a parameter, from key bytes and message bytes
  to the hex digest. \<open>hmac.compare_digest\<close> on strings raises \<open>TypeError\<close> unless both are
  ASCII, which the model keeps. Header values arrive decoded as Latin-1.
\<close>

type_synonym hmac_hex = "string \<Rightarrow> string \<Rightarrow> string"

definition utf8_char :: "char \<Rightarrow> string" where
  "utf8_char c =
     (if codepoint c < 128 then [c] else [char_of (192 + codepoint c div 64), char_of (128 + codepoint c mod 64)])"

definition utf8 :: "string \<Rightarrow> string" where
  "utf8 s = concat (map utf8_char s)"

definition compare_digest :: "string \<Rightarrow> string \<Rightarrow> bool res" where
  "compare_digest a b =
     (if is_ascii a \<and> is_ascii b then Inr (a = b)
      else Inl (TypeError ''comparing strings with non-ASCII characters is not supported''))"

definition presented_key :: "string option \<Rightarrow> string option \<Rightarrow> string" where
  "presented_key authorization x_api_key =
     (let a = (case authorization of None \<Rightarrow> [] | Some v \<Rightarrow> v);
          x = (case x_api_key of None \<Rightarrow> [] | Some v \<Rightarrow> v)
      in if a \<noteq> [] \<and> starts_with ''bearer '' (lower a) then strip (drop 7 a)
         else if x \<noteq> [] then strip x
         else [])"

text \<open>The loop over every configured key: it does not stop at a match, and the last one wins.\<close>

fun match_keys :: "string \<Rightarrow> string \<Rightarrow> (string \<times> string) list \<Rightarrow> string res" where
  "match_keys presented matched [] = Inr matched"
| "match_keys presented matched ((key, service) # keys) =
     rbind (compare_digest presented key)
       (\<lambda>eq. match_keys presented (if eq then service else matched) keys)"

definition require_api_key :: "config \<Rightarrow> string option \<Rightarrow> string option \<Rightarrow> string res" where
  "require_api_key cfg authorization x_api_key =
     (let presented = presented_key authorization x_api_key
      in if presented = [] then Inl (HTTPException 401 ''missing API key'')
         else rbind (match_keys presented [] (api_keys cfg))
                (\<lambda>matched. if matched = [] then Inl (HTTPException 401 ''invalid API key'')
                            else Inr matched))"

definition sign :: "hmac_hex \<Rightarrow> string \<Rightarrow> string \<Rightarrow> string" where
  "sign hmac body secret = hmac (utf8 secret) body"

definition presented_signature :: "string option \<Rightarrow> string option \<Rightarrow> string" where
  "presented_signature x_signature x_hub =
     (let h = (case x_signature of Some v \<Rightarrow> v | None \<Rightarrow> []);
          h2 = (case x_hub of Some v \<Rightarrow> v | None \<Rightarrow> [])
      in removeprefix ''sha256='' (strip (if h \<noteq> [] then h else h2)))"

definition verify_inbound_signature ::
  "hmac_hex \<Rightarrow> config \<Rightarrow> string option \<Rightarrow> string option \<Rightarrow> string \<Rightarrow> string res"
where
  "verify_inbound_signature hmac cfg x_signature x_hub body =
     (let secret = webhook_secret cfg
      in if secret = [] then Inl (HTTPException 503 ''inbound webhooks are not configured'')
         else
           let presented = presented_signature x_signature x_hub
           in if presented = [] then Inl (HTTPException 401 ''bad signature'')
              else rbind (compare_digest presented (sign hmac body secret))
                     (\<lambda>eq. if \<not> eq then Inl (HTTPException 401 ''bad signature'') else Inr body))"

subsection \<open>Facts\<close>

lemma compare_digest_ascii: "is_ascii a \<Longrightarrow> is_ascii b \<Longrightarrow> compare_digest a b = Inr (a = b)"
  by (simp add: compare_digest_def)

lemma match_keys_ascii:
  assumes "is_ascii p" and "\<And>k. k \<in> fst ` set keys \<Longrightarrow> is_ascii k" and "distinct (map fst keys)"
  shows "match_keys p m keys = Inr (case map_of keys p of None \<Rightarrow> m | Some s \<Rightarrow> s)"
  using assms
proof (induction p m keys rule: match_keys.induct)
  case (2 p m k s keys)
  have "map_of keys p = None" if "k = p"
    using 2(4) that by (auto simp: map_of_eq_None_iff)
  with 2 show ?case by (auto simp: compare_digest_ascii split: option.splits)
qed simp

lemma match_keys_non_ascii:
  assumes "\<not> is_ascii p \<and> keys \<noteq> [] \<or> (\<exists>k \<in> fst ` set keys. \<not> is_ascii k)"
  shows "\<exists>msg. match_keys p m keys = Inl (TypeError msg)"
  using assms
  by (induction p m keys rule: match_keys.induct) (auto simp: compare_digest_def)

subsection \<open>Properties\<close>

lemma match_configured:
  assumes "is_ascii p" and "\<forall>(n, v) \<in> set kvs. truthy v \<longrightarrow> is_ascii (py_str v)"
  shows "match_keys p [] (api_keys_of (JObj kvs)) =
    Inr (case find (\<lambda>(_, v). truthy v \<and> py_str v = p) (rev kvs) of None \<Rightarrow> [] | Some (name, _) \<Rightarrow> name)"
proof -
  let ?keys = "api_keys_of (JObj kvs)"
  have "is_ascii k" if "k \<in> fst ` set ?keys" for k
    using that assms(2) by (auto simp: api_keys_of_def keys_add_keys)
  then have "match_keys p [] ?keys = Inr (case map_of ?keys p of None \<Rightarrow> [] | Some s \<Rightarrow> s)"
    using match_keys_ascii [OF assms(1) _ distinct_api_keys] by blast
  then show ?thesis
    by (auto simp: api_keys_of_def map_of_add_keys split: option.splits)
qed



text \<open>
  C31. The inbound signature check accepts a body exactly when a secret is configured and
  the presented signature, without its optional prefix, is the HMAC of those very bytes; it
  then hands on the bytes unchanged, and without a secret it refuses everything with 503.
\<close>

theorem verify_inbound_signature_iff:
  "(verify_inbound_signature hmac cfg xs xh raw = Inr b \<longleftrightarrow>
      webhook_secret cfg \<noteq> [] \<and> presented_signature xs xh = sign hmac raw (webhook_secret cfg) \<and>
      presented_signature xs xh \<noteq> [] \<and> is_ascii (presented_signature xs xh) \<and> b = raw) \<and>
   (verify_inbound_signature hmac cfg xs xh raw = Inl (HTTPException 503 msg) \<longleftrightarrow>
      webhook_secret cfg = [] \<and> msg = ''inbound webhooks are not configured'')"
  by (auto simp: verify_inbound_signature_def Let_def compare_digest_def res_simps split: if_splits)

text \<open>One key outside ASCII, presented or configured, makes the guard raise instead of answering 401.\<close>

lemma non_ascii_key_raises:
  assumes "presented_key authorization x_api_key \<noteq> []"
    and "\<not> is_ascii (presented_key authorization x_api_key) \<and> api_keys cfg \<noteq> [] \<or>
         (\<exists>k \<in> fst ` set (api_keys cfg). \<not> is_ascii k)"
  shows "\<exists>msg. require_api_key cfg authorization x_api_key = Inl (TypeError msg)"
  using match_keys_non_ascii [OF assms(2), of "[]"] assms(1) by (auto simp: require_api_key_def Let_def)

end
