(* ===== verification/Http.thy ===== *)
theory Http
  imports PyJson
begin

section \<open>HTTP calls made by the relay\<close>

text \<open>
  httpx is a parameter: a call yields an exception or a response, of which the code reads
  the status code, the text and the JSON body (\<open>None\<close> where \<open>response.json()\<close> raises
  \<open>JSONDecodeError\<close>). The requests the code builds are values too, so that what leaves the
  process can be stated.
\<close>

record response =
  status_code :: int
  resp_text :: string
  resp_json :: "json option"

record http_request =
  req_url :: string
  req_json :: json
  req_headers :: "(string \<times> string) list"
  req_auth :: "(string \<times> string) option"
  req_content :: string

definition json_request :: "string \<Rightarrow> string \<times> string \<Rightarrow> json \<Rightarrow> http_request" where
  "json_request url auth v =
     \<lparr>req_url = url, req_json = v, req_headers = [], req_auth = Some auth, req_content = []\<rparr>"

text \<open>\<open>raise_for_status\<close> raises for everything but a 2xx.\<close>

definition raise_for_status :: "response \<Rightarrow> unit res" where
  "raise_for_status r =
     (if 200 \<le> status_code r \<and> status_code r < 300 then Inr ()
      else Inl (HTTPError (''status '' @ dec_int (status_code r))))"

definition response_json :: "response \<Rightarrow> json res" where
  "response_json r = (case resp_json r of None \<Rightarrow> Inl JSONDecodeError | Some v \<Rightarrow> Inr v)"

text \<open>\<open>(v or {}).get(k)\<close>: only a dict, or something false, has a \<open>get\<close>.\<close>

definition get_or_empty :: "json \<Rightarrow> string \<Rightarrow> json res" where
  "get_or_empty v k =
     (if \<not> truthy v then Inr JNull
      else case v of JObj kvs \<Rightarrow> Inr (jget kvs k) | _ \<Rightarrow> Inl (AttributeError ''get''))"

end
