(* ===== verification/Providers.thy ===== *)
theory Providers
  imports Models Config Http
begin

section \<open>SMS providers (providers/)\<close>

text \<open>
  The provider interface and its two implementations. A provider is a record of its
  methods; \<open>net\<close> is the HTTP client of the Android gateway's constructor, as a function
  from the request it is given. \<open>send\<close> yields the provider's message id as the JSON value
  the code takes it from, \<open>fetch_status\<close> the status to record, if any.
\<close>

record provider =
  p_name :: string
  p_send :: "string \<Rightarrow> string \<Rightarrow> json res"
  p_fetch_status :: "string \<Rightarrow> message_status option res"

definition STATE_MAP :: "(string \<times> message_status) list" where
  "STATE_MAP =
     [(''Pending'', SENT), (''Processed'', SENT), (''Sent'', SENT),
      (''Delivered'', DELIVERED), (''Failed'', FAILED)]"

definition is_permanent :: "int \<Rightarrow> bool" where
  "is_permanent sc \<longleftrightarrow> 400 \<le> sc \<and> sc < 500 \<and> sc \<noteq> 429"

definition android_payload :: "string \<Rightarrow> string \<Rightarrow> json" where
  "android_payload to_num text =
     JObj [(''textMessage'', JObj [(''text'', JStr text)]), (''phoneNumbers'', JList [JStr to_num])]"

definition android_send ::
  "(http_request \<Rightarrow> response res) \<Rightarrow> string \<Rightarrow> string \<times> string \<Rightarrow> string \<Rightarrow> string \<Rightarrow> json res"
where
  "android_send net base_url auth to_num text =
     (case net (json_request (base_url @ ''/message'') auth (android_payload to_num text)) of
        Inl (HTTPError exc) \<Rightarrow> Inl (ProviderError (''gateway unreachable: '' @ exc) False)
      | Inl e \<Rightarrow> Inl e
      | Inr resp \<Rightarrow>
          if status_code resp \<ge> 400 then
            Inl (ProviderError
                   (''gateway returned '' @ dec_int (status_code resp) @ '': '' @ take 200 (resp_text resp))
                   (is_permanent (status_code resp)))
          else
            case response_json resp of
              Inl _ \<Rightarrow> Inr JNull
            | Inr v \<Rightarrow> get_or_empty v ''id'')"

text \<open>Looking up a dict by a value that cannot be hashed raises.\<close>

definition state_lookup :: "json \<Rightarrow> message_status option res" where
  "state_lookup v =
     (case v of
        JStr s \<Rightarrow> Inr (map_of STATE_MAP s)
      | JList _ \<Rightarrow> Inl (TypeError ''unhashable type: list'')
      | JObj _ \<Rightarrow> Inl (TypeError ''unhashable type: dict'')
      | _ \<Rightarrow> Inr None)"

definition android_fetch_status ::
  "(http_request \<Rightarrow> response res) \<Rightarrow> string \<Rightarrow> string \<times> string \<Rightarrow> string \<Rightarrow> message_status option res"
where
  "android_fetch_status net base_url auth pid =
     (case net (json_request (base_url @ ''/message/'' @ pid) auth JNull) of
        Inl e \<Rightarrow> if is_HTTPError e \<or> is_ValueError e then Inr None else Inl e
      | Inr resp \<Rightarrow>
          if status_code resp = 404 then Inr None
          else
            case rbind (raise_for_status resp)
                   (\<lambda>_. rbind (response_json resp) (\<lambda>v. get_or_empty v ''state'')) of
              Inl e \<Rightarrow> if is_HTTPError e \<or> is_ValueError e then Inr None else Inl e
            | Inr state \<Rightarrow> state_lookup state)"

definition android_provider ::
  "(http_request \<Rightarrow> response res) \<Rightarrow> string \<Rightarrow> string \<Rightarrow> string \<Rightarrow> provider res"
where
  "android_provider net base_url username password =
     (if base_url = [] then Inl (ValueError ''SMS_RELAY_GATEWAY_URL is required for the android_gateway provider'')
      else
        let base = rstrip_slash base_url
        in Inr \<lparr>p_name = ''android_gateway'',
                p_send = android_send net base (username, password),
                p_fetch_status = android_fetch_status net base (username, password)\<rparr>)"

subsection \<open>The development provider\<close>

text \<open>
  \<open>write\<close> is \<open>mkdir\<close> and \<open>write_text\<close> on a path and a text; \<open>stamp\<close> and \<open>uuid\<close> are the
  strings of \<open>strftime\<close> and \<open>uuid4\<close>. \<open>is_word\<close> is the class \<open>\w\<close> on Latin-1.
\<close>

definition is_word :: "char \<Rightarrow> bool" where
  "is_word c \<longleftrightarrow>
     (let n = codepoint c
      in 48 \<le> n \<and> n \<le> 57 \<or> 65 \<le> n \<and> n \<le> 90 \<or> n = 95 \<or> 97 \<le> n \<and> n \<le> 122 \<or>
         n \<in> {170, 178, 179, 181, 185, 186, 188, 189, 190} \<or> 192 \<le> n \<and> n \<noteq> 215 \<and> n \<noteq> 247)"

definition safe_name :: "string \<Rightarrow> string" where
  "safe_name to_num =
     take 32 (map (\<lambda>c. if is_word c \<or> c = CHR ''+'' \<or> c = CHR ''-'' then c else CHR ''_'') to_num)"

definition dev_send ::
  "(string \<Rightarrow> string \<Rightarrow> unit res) \<Rightarrow> string \<Rightarrow> string \<Rightarrow> string \<Rightarrow> string \<Rightarrow> string \<Rightarrow> json res"
where
  "dev_send write dir stamp uuid to_num text =
     rbind (write (dir @ ''/'' @ stamp @ ''_'' @ safe_name to_num @ ''.txt'')
              (''To: '' @ to_num @ [CHR 0x0A, CHR 0x0A] @ text @ [CHR 0x0A]))
       (\<lambda>_. Inr (JStr (''dev-'' @ uuid)))"

definition base_fetch_status :: "string \<Rightarrow> message_status option res" where
  "base_fetch_status pid = Inr None"

definition dev_provider ::
  "(string \<Rightarrow> string \<Rightarrow> unit res) \<Rightarrow> string \<Rightarrow> string \<Rightarrow> string \<Rightarrow> provider"
where
  "dev_provider write dir stamp uuid =
     \<lparr>p_name = ''dev'', p_send = dev_send write dir stamp uuid, p_fetch_status = base_fetch_status\<rparr>"

definition get_provider ::
  "(http_request \<Rightarrow> response res) \<Rightarrow> (string \<Rightarrow> string \<Rightarrow> unit res) \<Rightarrow> string \<Rightarrow> string \<Rightarrow> config \<Rightarrow> provider res"
where
  "get_provider net write stamp uuid cfg =
     (if provider_name cfg = ''dev'' then Inr (dev_provider write (dev_output_dir cfg) stamp uuid)
      else android_provider net (gateway_url cfg) (gateway_user cfg) (gateway_password cfg))"

subsection \<open>The interface the worker relies on\<close>

text \<open>
  A status a provider reports is a receipt: handed over, delivered or failed. The worker's
  invariants need no more: in particular no receipt puts a message back in the queue.
\<close>

locale receipt_source =
  fixes fetch :: "string \<Rightarrow> message_status option res"
  assumes fetch_receipt: "fetch pid = Inr (Some s) \<Longrightarrow> s = SENT \<or> s = DELIVERED \<or> s = FAILED"

lemma state_lookup_receipt:
  "state_lookup v = Inr (Some s) \<Longrightarrow> s = SENT \<or> s = DELIVERED \<or> s = FAILED"
  by (auto simp: state_lookup_def STATE_MAP_def split: json.splits if_splits)

interpretation android: receipt_source "android_fetch_status net base auth"
  for net base auth
  by unfold_locales
     (auto simp: android_fetch_status_def split: sum.splits if_splits dest!: state_lookup_receipt)

interpretation dev: receipt_source base_fetch_status
  by unfold_locales (simp add: base_fetch_status_def)

lemma get_provider_receipts:
  "get_provider net write stamp uuid cfg = Inr p \<Longrightarrow> receipt_source (p_fetch_status p)"
  by (auto simp: get_provider_def android_provider_def dev_provider_def Let_def
      android.receipt_source_axioms dev.receipt_source_axioms split: if_splits)

end
