(* ===== verification/Notifications.thy ===== *)
theory Notifications
  imports Models Phone Http
begin

section \<open>ntfy routing (notifications.py)\<close>

text \<open>
  \<open>topic_for\<close> decides at queueing time whether a message goes to an ntfy topic, and
  \<open>publish\<close> turns ntfy's answer into a receipt. \<open>re_search\<close> is \<open>re.search\<close> of the
  configured pattern, which may raise \<open>re.error\<close>; the topic's own pattern is modelled.
\<close>

definition topic_char :: "char \<Rightarrow> bool" where
  "topic_char c \<longleftrightarrow>
     (let n = codepoint c
      in 97 \<le> n \<and> n \<le> 122 \<or> 65 \<le> n \<and> n \<le> 90 \<or> 48 \<le> n \<and> n \<le> 57 \<or> n = 95 \<or> n = 45)"

definition valid_topic :: "string \<Rightarrow> bool" where
  "valid_topic s \<longleftrightarrow> 1 \<le> length s \<and> length s \<le> 64 \<and> list_all topic_char s"

definition search_pattern :: "(string \<Rightarrow> string \<Rightarrow> bool res) \<Rightarrow> json \<Rightarrow> string \<Rightarrow> bool res" where
  "search_pattern re_search pattern text =
     (case pattern of
        JStr p \<Rightarrow> re_search p text
      | _ \<Rightarrow> Inl (TypeError ''first argument must be string or compiled pattern''))"

definition checked_topic :: "json \<Rightarrow> string res" where
  "checked_topic v =
     (case v of
        JStr t \<Rightarrow> if valid_topic t then Inr t else Inl (ValueError ''invalid notification topic'')
      | _ \<Rightarrow> Inl (TypeError ''expected string or bytes-like object''))"

definition topic_for ::
  "'n phonelib \<Rightarrow> (string \<Rightarrow> string \<Rightarrow> bool res) \<Rightarrow> config \<Rightarrow> string \<Rightarrow> string \<Rightarrow> string \<Rightarrow> string option res"
where
  "topic_for lib re_search cfg svc recipient text =
     (let route = jget_or (notification_routes cfg) svc (JObj [])
      in if \<not> truthy route \<or> ntfy_url cfg = [] then Inr None
         else
           rbind (jindex route ''to'') (\<lambda>to_v.
           rbind (normalize_value lib cfg to_v) (\<lambda>owner.
             if owner \<noteq> recipient then Inr None
             else
               let pattern = jget (the_dict route) ''bodyPattern''
               in rbind (if truthy pattern then search_pattern re_search pattern text else Inr True)
                    (\<lambda>matches.
                       if \<not> matches then Inr None
                       else rbind (checked_topic (jget_or (the_dict route) ''topic'' (JStr [])))
                              (\<lambda>t. Inr (Some t))))))"

definition publish_request :: "config \<Rightarrow> message \<Rightarrow> http_request" where
  "publish_request cfg m =
     json_request (rstrip_slash (ntfy_url cfg) @ ''/'') (ntfy_user cfg, ntfy_password cfg)
       (JObj [(''topic'', opt_json (notification_topic m)), (''message'', JStr (body m)),
              (''title'', JStr (service m)), (''tags'', JList [JStr ''bell'']),
              (''priority'', JInt (notification_priority m))])"

definition publish :: "(http_request \<Rightarrow> response res) \<Rightarrow> config \<Rightarrow> message \<Rightarrow> string res" where
  "publish net cfg m =
     rbind (net (publish_request cfg m)) (\<lambda>resp.
     rbind (raise_for_status resp) (\<lambda>_.
     rbind (response_json resp) (\<lambda>receipt.
       if \<not> is_dict receipt \<or> jget (the_dict receipt) ''event'' \<noteq> JStr ''message'' \<or>
          \<not> is_str (jget (the_dict receipt) ''id'')
       then Inl (ValueError ''ntfy did not acknowledge publication'')
       else Inr (the_str (jget (the_dict receipt) ''id'')))))"

subsection \<open>Facts\<close>

lemma checked_topic_Inr: "checked_topic v = Inr t \<Longrightarrow> v = JStr t \<and> valid_topic t"
  by (auto simp: checked_topic_def split: json.splits if_splits)

lemma topic_for_nonempty: "topic_for lib re_search cfg svc r t \<noteq> Inr (Some [])"
  by (auto simp: topic_for_def Let_def res_simps valid_topic_def dest!: checked_topic_Inr split: if_splits)

subsection \<open>Properties\<close>

definition pattern_accepts :: "(string \<Rightarrow> string \<Rightarrow> bool res) \<Rightarrow> json \<Rightarrow> string \<Rightarrow> bool res" where
  "pattern_accepts re_search pattern text =
     (if truthy pattern then search_pattern re_search pattern text else Inr True)"

lemma pattern_accepts_iff:
  "pattern_accepts re_search (jget route k) text = Inr True \<longleftrightarrow>
   (case map_of route k of
      None \<Rightarrow> True
    | Some (JStr p) \<Rightarrow> p = [] \<or> re_search p text = Inr True
    | Some v \<Rightarrow> \<not> truthy v)"
  by (cases "jget route k") (auto simp: pattern_accepts_def search_pattern_def jget_def split: option.splits)

lemma normalize_value_JStr:
  "normalize_value lib cfg v = Inr n \<longleftrightarrow> (\<exists>s. v = JStr s \<and> s \<noteq> [] \<and> normalize lib cfg s None = Inr n)"
  by (cases v) (auto simp: normalize_value_def)

text \<open>
  C32. A message is routed to an ntfy topic only for the owner of its service's route: ntfy
  is configured, the recipient is the route's own number, the body matches the route's
  pattern if it has one, and the topic is the route's and well formed. Nobody else's message
  is published, whatever the service sends.
\<close>

theorem topic_for_owner_only:
  "topic_for lib re_search cfg svc recipient text = Inr (Some t) \<longleftrightarrow>
   ntfy_url cfg \<noteq> [] \<and> valid_topic t \<and>
   (\<exists>route owner.
      map_of (notification_routes cfg) svc = Some (JObj route) \<and> map_of route ''to'' = Some (JStr owner) \<and>
      owner \<noteq> [] \<and> normalize lib cfg owner None = Inr recipient \<and>
      map_of route ''topic'' = Some (JStr t) \<and>
      (case map_of route ''bodyPattern'' of
         None \<Rightarrow> True
       | Some (JStr p) \<Rightarrow> p = [] \<or> re_search p text = Inr True
       | Some v \<Rightarrow> \<not> truthy v))"
  (is "?l \<longleftrightarrow> ?r")
proof
  assume ?l
  then obtain route where route: "map_of (notification_routes cfg) svc = Some route" "ntfy_url cfg \<noteq> []"
    by (auto simp: topic_for_def jget_or_def Let_def split: option.splits if_splits)
  with \<open>?l\<close> obtain to_v where to_v: "jindex route ''to'' = Inr to_v" "normalize_value lib cfg to_v = Inr recipient"
    and pat: "pattern_accepts re_search (jget (the_dict route) ''bodyPattern'') text = Inr True"
    and topic: "checked_topic (jget_or (the_dict route) ''topic'' (JStr [])) = Inr t"
    by (auto simp: topic_for_def pattern_accepts_def jget_or_def Let_def res_simps split: if_splits)
  obtain kvs where kvs: "route = JObj kvs" "map_of kvs ''to'' = Some to_v"
    using to_v(1) by (auto simp: jindex_Inr_iff)
  have "map_of kvs ''topic'' = Some (JStr t) \<and> valid_topic t"
    using checked_topic_Inr [OF topic] by (auto simp: kvs jget_or_def valid_topic_def split: option.splits)
  with route kvs normalize_value_JStr [THEN iffD1, OF to_v(2)] pat show ?r
    by (auto simp: pattern_accepts_iff)
next
  assume ?r
  then obtain route owner where r: "map_of (notification_routes cfg) svc = Some (JObj route)"
    "map_of route ''to'' = Some (JStr owner)" "normalize_value lib cfg (JStr owner) = Inr recipient"
    "map_of route ''topic'' = Some (JStr t)" "valid_topic t" "ntfy_url cfg \<noteq> []"
    and pat: "pattern_accepts re_search (jget route ''bodyPattern'') text = Inr True"
    unfolding pattern_accepts_iff normalize_value_JStr by blast
  then have "route \<noteq> []" by auto
  with r pat show ?l
    by (simp add: topic_for_def jget_or_def Let_def checked_topic_def pattern_accepts_def)
qed

text \<open>
  A publication counts as accepted only on ntfy's explicit acknowledgement: the answer
  to the request is a 2xx whose body is an object with the event "message" and a string id,
  which is the receipt recorded.
\<close>

lemma publish_acknowledged:
  "publish net cfg m = Inr receipt \<longleftrightarrow>
   (\<exists>resp kvs. net (publish_request cfg m) = Inr resp \<and> 200 \<le> status_code resp \<and> status_code resp < 300 \<and>
      resp_json resp = Some (JObj kvs) \<and> map_of kvs ''event'' = Some (JStr ''message'') \<and>
      map_of kvs ''id'' = Some (JStr receipt))"
proof -
  have "is_dict v \<and> jget (the_dict v) ''event'' = JStr ''message'' \<and> is_str (jget (the_dict v) ''id'') \<and>
      the_str (jget (the_dict v) ''id'') = receipt \<longleftrightarrow>
      (\<exists>kvs. v = JObj kvs \<and> map_of kvs ''event'' = Some (JStr ''message'') \<and> map_of kvs ''id'' = Some (JStr receipt))" for v
    by (cases v) (auto simp: jget_def elim: is_str.elims split: option.splits)
  then have ack: "(if \<not> is_dict v \<or> jget (the_dict v) ''event'' \<noteq> JStr ''message'' \<or> \<not> is_str (jget (the_dict v) ''id'')
       then Inl (ValueError ''ntfy did not acknowledge publication'')
       else Inr (the_str (jget (the_dict v) ''id''))) = Inr receipt \<longleftrightarrow>
      (\<exists>kvs. v = JObj kvs \<and> map_of kvs ''event'' = Some (JStr ''message'') \<and> map_of kvs ''id'' = Some (JStr receipt))" for v
    by auto
  have ok: "raise_for_status resp = Inr u \<longleftrightarrow> 200 \<le> status_code resp \<and> status_code resp < 300" for resp u
    by (auto simp: raise_for_status_def)
  have js: "response_json resp = Inr v \<longleftrightarrow> resp_json resp = Some v" for resp v
    by (auto simp: response_json_def split: option.splits)
  show ?thesis unfolding publish_def rbind_Inr_iff ack ok js by blast
qed

end
