(* ===== verification/Retry.thy ===== *)
theory Retry
  imports Prelude
begin

section \<open>Retry contracts\<close>

text \<open>
  Outbound sends (worker.py) and webhook deliveries (webhooks.py) retry in the same way
  with different constants. Two interfaces say what both promise: \<open>backoff_policy\<close> for the
  waiting time and \<open>bounded_retry\<close> for giving up. Both are interpreted in the theories of
  the two components.
\<close>

text \<open>\<open>min(30 * (2 ** max(0, attempts - 1)), cap)\<close>, with the cap of each component.\<close>

definition doubling_backoff :: "int \<Rightarrow> int \<Rightarrow> int" where
  "doubling_backoff cap attempts = min (30 * 2 ^ nat (max 0 (attempts - 1))) cap"

locale backoff_policy =
  fixes backoff :: "int \<Rightarrow> int" and cap :: int
  assumes base_cap: "30 \<le> cap"
    and backoff_first: "n \<le> 1 \<Longrightarrow> backoff n = 30"
    and backoff_double: "1 \<le> n \<Longrightarrow> backoff (n + 1) = min (2 * backoff n) cap"
begin

lemma backoff_bounds: "30 \<le> backoff n \<and> backoff n \<le> cap"
proof (cases "n \<le> 1")
  case True
  then show ?thesis using base_cap by (simp add: backoff_first)
next
  case False
  then have "1 \<le> n" by simp
  then show ?thesis
  proof (induction n rule: int_ge_induct)
    case base
    then show ?case using base_cap by (simp add: backoff_first)
  next
    case (step i)
    then show ?case using base_cap by (simp add: backoff_double)
  qed
qed

lemma backoff_step: "backoff n \<le> backoff (n + 1)"
  using backoff_bounds [of n] by (cases "n < 1") (auto simp: backoff_first backoff_double)

end

lemma doubling_backoff_policy: "30 \<le> cap \<Longrightarrow> backoff_policy (doubling_backoff cap) cap"
proof (unfold_locales, goal_cases)
  case (2 n)
  then show ?case by (simp add: doubling_backoff_def)
next
  case (3 n)
  then have "nat (max 0 n) = Suc (nat (max 0 (n - 1)))" by simp
  with 3 show ?case by (simp add: doubling_backoff_def min_def)
qed

text \<open>
  A failure event \<open>e\<close> counts one attempt; below the limit the item stays live, at the
  limit it is dead.
\<close>

locale bounded_retry =
  fixes count :: "'s \<Rightarrow> int" and live :: "'s \<Rightarrow> bool" and dead :: "'s \<Rightarrow> bool"
    and fail :: "'e \<Rightarrow> 's \<Rightarrow> 's" and limit :: int
  assumes fail_count: "count (fail e s) = count s + 1"
    and fail_live: "count s + 1 < limit \<Longrightarrow> live (fail e s)"
    and fail_dead: "limit \<le> count s + 1 \<Longrightarrow> dead (fail e s)"
    and live_dead: "live s \<Longrightarrow> \<not> dead s"
begin

lemma count_fold: "count (fold fail es s) = count s + int (length es)"
  by (induction es arbitrary: s) (auto simp: fail_count)

lemma dead_after: "es \<noteq> [] \<Longrightarrow> dead (fold fail es s) \<longleftrightarrow> limit \<le> count s + int (length es)"
proof (induction es rule: rev_induct)
  case (snoc e es)
  let ?s = "fold fail es s"
  show ?case
  proof (cases "limit \<le> count ?s + 1")
    case True
    then show ?thesis using fail_dead [of ?s e] by (simp add: count_fold)
  next
    case False
    then have "live (fail e ?s)" by (intro fail_live) simp
    with False show ?thesis by (auto simp: count_fold dest: live_dead)
  qed
qed simp

lemma live_after: "es \<noteq> [] \<Longrightarrow> count s + int (length es) < limit \<Longrightarrow> live (fold fail es s)"
proof (induction es rule: rev_induct)
  case (snoc e es)
  then show ?case by (simp add: count_fold fail_live)
qed simp

end

section \<open>Working off a store\<close>

text \<open>
  Both loops work off rows of a table, one turn after another. What makes that end is a
  potential: the tries the rows have left. A turn that fits the state pays each call it makes to the
  outside from it, and lowers it while there is any.
\<close>

fun fits :: "('e \<Rightarrow> 's \<Rightarrow> 's) \<Rightarrow> ('e \<Rightarrow> 's \<Rightarrow> bool) \<Rightarrow> 'e list \<Rightarrow> 's \<Rightarrow> bool" where
  "fits step fit [] s \<longleftrightarrow> True"
| "fits step fit (e # es) s \<longleftrightarrow> fit e s \<and> fits step fit es (step e s)"

fun total_cost :: "('e \<Rightarrow> 's \<Rightarrow> 's) \<Rightarrow> ('e \<Rightarrow> 's \<Rightarrow> nat) \<Rightarrow> 'e list \<Rightarrow> 's \<Rightarrow> nat" where
  "total_cost step cost [] s = 0"
| "total_cost step cost (e # es) s = cost e s + total_cost step cost es (step e s)"

locale works_off =
  fixes step :: "'e \<Rightarrow> 's \<Rightarrow> 's" and fit :: "'e \<Rightarrow> 's \<Rightarrow> bool" and inv :: "'s \<Rightarrow> bool"
    and cost :: "'e \<Rightarrow> 's \<Rightarrow> nat" and left :: "'s \<Rightarrow> nat"
  assumes inv_step: "inv s \<Longrightarrow> fit e s \<Longrightarrow> inv (step e s)"
    and pays: "inv s \<Longrightarrow> fit e s \<Longrightarrow> cost e s + left (step e s) \<le> left s"
    and progress: "inv s \<Longrightarrow> fit e s \<Longrightarrow> 0 < left s \<Longrightarrow> left (step e s) < left s"
begin

lemma run_ends:
  "inv s \<Longrightarrow> fits step fit es s \<Longrightarrow>
   inv (fold step es s) \<and> total_cost step cost es s + left (fold step es s) \<le> left s \<and>
   left (fold step es s) \<le> left s - length es"
proof (induction es arbitrary: s)
  case (Cons e es)
  have "inv (step e s)" using inv_step Cons.prems by simp
  with Cons.IH [of "step e s"] Cons.prems
  have IH: "inv (fold step es (step e s))"
    "total_cost step cost es (step e s) + left (fold step es (step e s)) \<le> left (step e s)"
    "left (fold step es (step e s)) \<le> left (step e s) - length es" by simp_all
  moreover have "cost e s + left (step e s) \<le> left s" "left (step e s) \<le> left s - 1"
    using pays [of s e] progress [of s e] Cons.prems by (cases "left s"; fastforce)+
  ultimately show ?case by simp
qed simp

end

end
