(* ===== verification/RateLimiter.thy ===== *)
theory RateLimiter
  imports Prelude
begin

section \<open>The sliding-window limiter (worker.py, RateLimiter)\<close>

text \<open>
  \<open>rl_sent\<close> is the deque of the last sends, oldest first; the clock is the event loop's, as
  exact instants. One pass of the loop of \<open>acquire\<close> drops what left the window and then
  takes a slot, or asks for a sleep. \<open>acquire\<close> runs passes over the readings of the clock
  the loop gets, one per pass; no more readings means still waiting.
\<close>

record rate_limiter =
  rl_per_minute :: int
  rl_sent :: "instant list"

definition new_limiter :: "int \<Rightarrow> rate_limiter" where
  "new_limiter per_minute = \<lparr>rl_per_minute = max 1 per_minute, rl_sent = []\<rparr>"

datatype pass =
    Acquired rate_limiter
  | Waiting int rate_limiter
  | IndexError

definition drop_expired :: "instant \<Rightarrow> instant list \<Rightarrow> instant list" where
  "drop_expired now sent = dropWhile (\<lambda>t. now - t \<ge> seconds 60) sent"

definition acquire_pass :: "instant \<Rightarrow> rate_limiter \<Rightarrow> pass" where
  "acquire_pass now l =
     (let sent = drop_expired now (rl_sent l)
      in if int (length sent) < rl_per_minute l then Acquired (l\<lparr>rl_sent := sent @ [now]\<rparr>)
         else case sent of
                [] \<Rightarrow> IndexError
              | oldest # _ \<Rightarrow>
                  Waiting (max 100000 (seconds 60 - (now - oldest))) (l\<lparr>rl_sent := sent\<rparr>))"

fun acquire :: "instant list \<Rightarrow> rate_limiter \<Rightarrow> (instant \<times> rate_limiter) option" where
  "acquire [] l = None"
| "acquire (now # readings) l =
     (case acquire_pass now l of
        Acquired l' \<Rightarrow> Some (now, l')
      | Waiting _ l' \<Rightarrow> acquire readings l'
      | IndexError \<Rightarrow> None)"

text \<open>
  The send loop calls \<open>acquire\<close> again and again: \<open>granted\<close> runs passes over all the readings
  of a whole run and lists the instants at which a slot was taken.
\<close>

fun granted :: "instant list \<Rightarrow> rate_limiter \<Rightarrow> instant list" where
  "granted [] l = []"
| "granted (now # readings) l =
     (case acquire_pass now l of
        Acquired l' \<Rightarrow> now # granted readings l'
      | Waiting _ l' \<Rightarrow> granted readings l'
      | IndexError \<Rightarrow> [])"

definition limiter_ok :: "rate_limiter \<Rightarrow> bool" where
  "limiter_ok l \<longleftrightarrow> 1 \<le> rl_per_minute l \<and> int (length (rl_sent l)) \<le> rl_per_minute l"

definition in_window :: "instant \<Rightarrow> instant list \<Rightarrow> nat" where
  "in_window a ts = length (filter (\<lambda>t. a \<le> t \<and> t < a + seconds 60) ts)"

lemma limiter_ok_new: "limiter_ok (new_limiter n)"
  by (simp add: limiter_ok_def new_limiter_def)

lemma length_drop_expired: "length (drop_expired now sent) \<le> length sent"
  by (simp add: drop_expired_def length_dropWhile_le)

lemma acquire_pass_ok:
  assumes "limiter_ok l"
  shows "acquire_pass now l \<noteq> IndexError"
    and "acquire_pass now l = Acquired l' \<Longrightarrow> limiter_ok l' \<and> rl_per_minute l' = rl_per_minute l"
    and "acquire_pass now l = Waiting d l' \<Longrightarrow> limiter_ok l' \<and> rl_per_minute l' = rl_per_minute l"
  using assms length_drop_expired [of now "rl_sent l"]
  by (auto simp: acquire_pass_def limiter_ok_def Let_def split: if_splits list.splits)

text \<open>What a pass drops is at least a minute old; what it keeps is what the deque holds.\<close>

lemma drop_expired_split:
  "\<exists>old. sent = old @ drop_expired now sent \<and> (\<forall>t \<in> set old. now - t \<ge> seconds 60)"
  unfolding drop_expired_def
  by (rule exI [of _ "takeWhile (\<lambda>t. now - t \<ge> seconds 60) sent"]) (auto dest: set_takeWhileD)

lemma window_grant:
  assumes old: "\<forall>t \<in> set old. now - t \<ge> seconds 60"
    and window: "\<forall>a. int (in_window a (old @ sent)) \<le> n"
    and room: "int (length sent) < n"
  shows "int (in_window a ((old @ sent) @ [now])) \<le> n"
proof (cases "a \<le> now \<and> now < a + seconds 60")
  case True
  then have "filter (\<lambda>t. a \<le> t \<and> t < a + seconds 60) old = []"
    using old by (auto simp: filter_empty_conv)
  then have "in_window a ((old @ sent) @ [now]) \<le> length sent + 1"
    by (simp add: in_window_def le_SucI)
  with room show ?thesis by linarith
next
  case False
  then have "in_window a ((old @ sent) @ [now]) = in_window a (old @ sent)"
    by (simp add: in_window_def)
  with window show ?thesis by metis
qed

lemma granted_window:
  assumes "limiter_ok l" and "sorted readings"
    and "\<forall>x \<in> set old. \<forall>t \<in> set readings. t - x \<ge> seconds 60"
    and "\<forall>a. int (in_window a (old @ rl_sent l)) \<le> rl_per_minute l"
  shows "int (in_window a ((old @ rl_sent l) @ granted readings l)) \<le> rl_per_minute l"
  using assms
proof (induction readings arbitrary: l old)
  case (Cons now readings)
  obtain gone where gone: "rl_sent l = gone @ drop_expired now (rl_sent l)"
    "\<forall>t \<in> set gone. now - t \<ge> seconds 60"
    using drop_expired_split by blast
  let ?old = "old @ gone" and ?sent = "drop_expired now (rl_sent l)"
  have hist: "old @ rl_sent l = ?old @ ?sent" using gone(1) by simp
  have old: "\<forall>x \<in> set ?old. \<forall>t \<in> set (now # readings). t - x \<ge> seconds 60"
    using Cons.prems(2,3) gone(2) by fastforce
  show ?case
  proof (cases "acquire_pass now l")
    case (Acquired l')
    then have l': "rl_sent l' = ?sent @ [now]" "rl_per_minute l' = rl_per_minute l"
      and room: "int (length ?sent) < rl_per_minute l"
      by (auto simp: acquire_pass_def Let_def split: if_splits list.splits)
    have "\<forall>a. int (in_window a (?old @ rl_sent l')) \<le> rl_per_minute l'"
      using window_grant [of ?old now ?sent "rl_per_minute l"] old Cons.prems(4) room
      by (simp add: l' hist)
    then have "int (in_window a ((?old @ rl_sent l') @ granted readings l')) \<le> rl_per_minute l'"
      using Cons.prems(2) old acquire_pass_ok(2) [OF Cons.prems(1) Acquired]
      by (intro Cons.IH) auto
    then show ?thesis using Acquired by (simp add: l' hist)
  next
    case (Waiting d l')
    then have l': "rl_sent l' = ?sent" "rl_per_minute l' = rl_per_minute l"
      by (auto simp: acquire_pass_def Let_def split: if_splits list.splits)
    have "int (in_window a ((?old @ rl_sent l') @ granted readings l')) \<le> rl_per_minute l'"
      using Cons.prems(2,4) old acquire_pass_ok(3) [OF Cons.prems(1) Waiting]
      by (intro Cons.IH) (auto simp: l' hist)
    then show ?thesis using Waiting by (simp add: l' hist)
  next
    case IndexError
    then show ?thesis using Cons.prems(1,4) acquire_pass_ok(1) by auto
  qed
qed simp

lemma acquire_after_sleep:
  assumes ok: "limiter_ok l" and w: "acquire_pass now l = Waiting d l'" and late: "now + d \<le> later"
  shows "\<exists>l''. acquire_pass later l' = Acquired l''"
proof -
  obtain oldest rest where s: "rl_sent l' = oldest # rest" "rl_per_minute l' = rl_per_minute l"
    and d: "d = max 100000 (seconds 60 - (now - oldest))"
    using w by (auto simp: acquire_pass_def Let_def split: if_splits list.splits)
  have "later - oldest \<ge> seconds 60" using d late by simp
  then have "length (drop_expired later (rl_sent l')) \<le> length rest"
    by (simp add: s drop_expired_def length_dropWhile_le)
  moreover have "int (length (rl_sent l')) \<le> rl_per_minute l'"
    using acquire_pass_ok(3) [OF ok w] by (simp add: limiter_ok_def)
  ultimately show ?thesis by (simp add: acquire_pass_def Let_def s)
qed

subsection \<open>Properties\<close>

text \<open>Over readings of a clock that does not go back, no window of sixty seconds has more slots than the rate.\<close>

lemma granted_in_window:
  assumes "sorted readings"
  shows "int (in_window a (granted readings (new_limiter per_minute))) \<le> max 1 per_minute"
  using granted_window [of "new_limiter per_minute" readings "[]" a] assms limiter_ok_new
  by (simp add: new_limiter_def in_window_def)

text \<open>
  C26. Acquiring a slot returns: the first pass takes one or asks for a sleep, and a pass
  after at least that sleep takes one, so two passes are enough for any limiter in use.
\<close>

theorem acquire_returns:
  assumes "limiter_ok l"
  shows "(\<exists>l'. acquire_pass now l = Acquired l' \<and> acquire [now] l = Some (now, l')) \<or>
    (\<exists>d l'. acquire_pass now l = Waiting d l' \<and> 0 < d \<and>
       (\<forall>later. now + d \<le> later \<longrightarrow>
          (\<exists>l''. acquire [now, later] l = Some (later, l'') \<and> limiter_ok l'')))"
proof (cases "acquire_pass now l")
  case (Waiting d l')
  have "\<exists>l''. acquire [now, later] l = Some (later, l'') \<and> limiter_ok l''" if "now + d \<le> later" for later
    using acquire_after_sleep [OF assms Waiting that] acquire_pass_ok(3) [OF assms Waiting]
      acquire_pass_ok(2) [of l' later] Waiting by auto
  moreover have "0 < d" using Waiting by (auto simp: acquire_pass_def Let_def split: if_splits list.splits)
  ultimately show ?thesis using Waiting by blast
qed (use assms acquire_pass_ok(1) in auto)

theorem acquire_returns_witness:
  "\<exists>l''. acquire [5, 60000000] \<lparr>rl_per_minute = 1, rl_sent = [0]\<rparr> = Some (60000000, l'')"
proof -
  have "acquire_pass 5 \<lparr>rl_per_minute = 1, rl_sent = [0]\<rparr> = Waiting 59999995 \<lparr>rl_per_minute = 1, rl_sent = [0]\<rparr>"
    by code_simp
  then show ?thesis
    using acquire_returns [of "\<lparr>rl_per_minute = 1, rl_sent = [0]\<rparr>" 5] by (auto simp: limiter_ok_def)
qed

end
