(* ===== verification/Webhooks.thy ===== *)
theory Webhooks
  imports Db Auth Http Retry
begin

section \<open>Fan-out to subscribers (webhooks.py)\<close>

text \<open>
  One delivery row per interested subscriber (\<open>enqueue_fanout\<close>), and one attempt at a
  delivery (\<open>deliver\<close>), which returns the updated row or the exception that escapes. The
  HTTP client, the HMAC and \<open>datetime.isoformat\<close> are parameters.
\<close>

definition MAX_DELIVERY_ATTEMPTS :: int where
  "MAX_DELIVERY_ATTEMPTS = 6"

definition webhook_backoff_seconds :: "int \<Rightarrow> int" where
  "webhook_backoff_seconds n = min (30 * 2 ^ nat (max 0 (n - 1))) 3600"

definition webhook_backoff :: "instant \<Rightarrow> int \<Rightarrow> instant" where
  "webhook_backoff now n = now + seconds (webhook_backoff_seconds n)"

definition interested :: "subscriber \<Rightarrow> bool" where
  "interested s \<longleftrightarrow> JStr ''message.received'' \<in> set (s_events s)"

definition fanout_row :: "string \<Rightarrow> nat \<times> subscriber \<Rightarrow> (nat \<Rightarrow> string \<times> instant \<times> instant \<times> instant) \<Rightarrow> delivery" where
  "fanout_row message_id p fresh =
     (case fresh (fst p) of (uuid, t_due, t_created, t_updated) \<Rightarrow>
        (new_delivery uuid t_created t_updated)
          \<lparr>d_message_id := message_id, d_subscriber := s_name (snd p), d_url := s_url (snd p),
           d_status := Pending, d_next_attempt_at := Some t_due\<rparr>)"

text \<open>The rows to add for a message, given the delivery rows the session sees.\<close>

definition enqueue_fanout ::
  "subscriber list res \<Rightarrow> (nat \<Rightarrow> string \<times> instant \<times> instant \<times> instant) \<Rightarrow> delivery list \<Rightarrow> string \<Rightarrow> delivery list res"
where
  "enqueue_fanout configured fresh rows message_id =
     rbind configured (\<lambda>subs.
       let wanted = filter interested subs;
           existing = set (map d_subscriber (filter (\<lambda>d. d_message_id d = message_id) rows))
       in Inr (if wanted = [] then []
               else map (\<lambda>p. fanout_row message_id p fresh)
                      (enumerate 0 (filter (\<lambda>s. s_name s \<notin> existing) wanted))))"

definition payload :: "(instant \<Rightarrow> string) \<Rightarrow> message \<Rightarrow> string" where
  "payload isoformat m =
     dumps '','' '':''
       (sort_keys
         (JObj [(''event'', JStr ''message.received''),
                (''message'',
                 JObj [(''id'', JStr (mid m)), (''from'', opt_json (from_number m)),
                       (''to'', opt_json (to_number m)), (''body'', JStr (body m)),
                       (''received_at'', JStr (isoformat (created_at m)))])]))"

definition find_subscriber :: "subscriber list \<Rightarrow> string \<Rightarrow> subscriber option" where
  "find_subscriber subs name = List.find (\<lambda>s. s_name s = name) subs"

definition delivery_request ::
  "hmac_hex \<Rightarrow> (instant \<Rightarrow> string) \<Rightarrow> subscriber \<Rightarrow> delivery \<Rightarrow> message \<Rightarrow> http_request"
where
  "delivery_request hmac isoformat sub d m =
     (let content = payload isoformat m
      in \<lparr>req_url = s_url sub, req_json = JNull,
          req_headers =
            [(''Content-Type'', ''application/json''),
             (''X-SMS-Relay-Event'', ''message.received''),
             (''X-SMS-Relay-Delivery'', d_id d)] @
            (if s_secret sub \<noteq> [] then [(''X-Signature'', sign hmac content (s_secret sub))] else []),
          req_auth = None, req_content = content\<rparr>)"

text \<open>The end of \<open>deliver\<close> after a failed attempt: give up, or go again later.\<close>

definition give_up_or_retry :: "instant \<Rightarrow> delivery \<Rightarrow> delivery" where
  "give_up_or_retry now d =
     (if d_attempts d \<ge> MAX_DELIVERY_ATTEMPTS then d\<lparr>d_status := Failed\<rparr>
      else d\<lparr>d_status := Pending, d_next_attempt_at := Some (webhook_backoff now (d_attempts d))\<rparr>)"

definition deliver ::
  "hmac_hex \<Rightarrow> (instant \<Rightarrow> string) \<Rightarrow> (http_request \<Rightarrow> response res) \<Rightarrow> subscriber list res \<Rightarrow> instant \<Rightarrow>
   delivery \<Rightarrow> message \<Rightarrow> delivery res"
where
  "deliver hmac isoformat net configured now d m =
     rbind configured (\<lambda>subs.
       case find_subscriber subs (d_subscriber d) of
         None \<Rightarrow> Inr (d\<lparr>d_status := Cancelled, d_error := Some ''subscriber no longer configured''\<rparr>)
       | Some sub \<Rightarrow>
           let d1 = d\<lparr>d_attempts := d_attempts d + 1\<rparr>
           in case net (delivery_request hmac isoformat sub d m) of
                Inr resp \<Rightarrow>
                  let d2 = d1\<lparr>d_response_code := Some (status_code resp)\<rparr>
                  in if status_code resp < 300 then Inr (d2\<lparr>d_status := Delivered, d_error := None\<rparr>)
                     else Inr (give_up_or_retry now
                            (d2\<lparr>d_error := Some (''HTTP '' @ dec_int (status_code resp) @ '': '' @
                                                 take 200 (resp_text resp))\<rparr>))
              | Inl (HTTPError exc) \<Rightarrow> Inr (give_up_or_retry now (d1\<lparr>d_error := Some (take 500 exc)\<rparr>))
              | Inl e \<Rightarrow> Inl e)"

subsection \<open>Contracts\<close>

lemma webhook_backoff_doubling: "webhook_backoff_seconds = doubling_backoff 3600"
  by (simp add: webhook_backoff_seconds_def doubling_backoff_def fun_eq_iff)

interpretation webhook_policy: backoff_policy webhook_backoff_seconds 3600
  unfolding webhook_backoff_doubling by (rule doubling_backoff_policy) simp

text \<open>A failed attempt as one event: the time it ended, the status if any, and the error.\<close>

definition failed_attempt :: "instant \<times> int option \<times> string \<Rightarrow> delivery \<Rightarrow> delivery" where
  "failed_attempt e d =
     (case e of (now, code, msg) \<Rightarrow>
        give_up_or_retry now
          (d\<lparr>d_attempts := d_attempts d + 1,
             d_response_code := (case code of None \<Rightarrow> d_response_code d | Some c \<Rightarrow> Some c),
             d_error := Some msg\<rparr>))"

interpretation webhook_retry:
  bounded_retry d_attempts "\<lambda>d. d_status d = Pending" "\<lambda>d. d_status d = Failed"
    failed_attempt MAX_DELIVERY_ATTEMPTS
  by unfold_locales (auto simp: failed_attempt_def give_up_or_retry_def split: prod.splits)

lemma d_frame_give_up [simp]:
  "d_id (give_up_or_retry now d) = d_id d"
  "d_message_id (give_up_or_retry now d) = d_message_id d"
  "d_subscriber (give_up_or_retry now d) = d_subscriber d"
  "d_attempts (give_up_or_retry now d) = d_attempts d"
  "d_updated_at (give_up_or_retry now d) = d_updated_at d"
  "d_created_at (give_up_or_retry now d) = d_created_at d"
  "d_url (give_up_or_retry now d) = d_url d"
  by (simp_all add: give_up_or_retry_def)

text \<open>Every result of \<open>deliver\<close>: cancelled, delivered, or one failed attempt.\<close>

lemma deliver_cases:
  assumes "deliver hmac isoformat net configured now d m = Inr d'"
  obtains (cancelled) subs where "configured = Inr subs" "find_subscriber subs (d_subscriber d) = None"
      "d' = d\<lparr>d_status := Cancelled, d_error := Some ''subscriber no longer configured''\<rparr>"
    | (delivered) subs sub resp where "configured = Inr subs" "find_subscriber subs (d_subscriber d) = Some sub"
      "net (delivery_request hmac isoformat sub d m) = Inr resp" "status_code resp < 300"
      "d' = d\<lparr>d_attempts := d_attempts d + 1, d_response_code := Some (status_code resp),
              d_status := Delivered, d_error := None\<rparr>"
    | (failed) subs sub code msg where "configured = Inr subs"
      "find_subscriber subs (d_subscriber d) = Some sub"
      "case net (delivery_request hmac isoformat sub d m) of
         Inr resp \<Rightarrow> 300 \<le> status_code resp | Inl e \<Rightarrow> is_HTTPError e"
      "d' = failed_attempt (now, code, msg) d"
proof -
  obtain subs where subs: "configured = Inr subs" using assms by (auto simp: deliver_def res_simps)
  show thesis
  proof (cases "find_subscriber subs (d_subscriber d)")
    case None
    then show thesis using assms subs by (intro cancelled) (auto simp: deliver_def)
  next
    case (Some sub)
    show thesis
    proof (cases "net (delivery_request hmac isoformat sub d m)")
      case (Inl e)
      then obtain exc where e: "e = HTTPError exc"
        and d': "d' = give_up_or_retry now (d\<lparr>d_attempts := d_attempts d + 1, d_error := Some (take 500 exc)\<rparr>)"
        using assms subs Some by (auto simp: deliver_def Let_def split: exn.splits)
      show thesis
        by (rule failed [of subs sub None "take 500 exc"]) (use subs Some Inl e d' in \<open>auto simp: failed_attempt_def\<close>)
    next
      case (Inr resp)
      show thesis
      proof (cases "status_code resp < 300")
        case True
        then show thesis using assms subs Some Inr by (intro delivered) (auto simp: deliver_def Let_def)
      next
        case False
        then show thesis using assms subs Some Inr
          by (intro failed [of subs sub "Some (status_code resp)"])
             (auto simp: deliver_def Let_def failed_attempt_def)
      qed
    qed
  qed
qed

lemma deliver_frame:
  assumes "deliver hmac isoformat net configured now d m = Inr d'"
  shows "d_id d' = d_id d" "d_message_id d' = d_message_id d" "d_subscriber d' = d_subscriber d"
    "d_updated_at d' = d_updated_at d" "d_created_at d' = d_created_at d" "d_url d' = d_url d"
  using assms by (auto elim!: deliver_cases simp: failed_attempt_def)

text \<open>The subscribers that get a row.\<close>

definition fanout_targets :: "subscriber list \<Rightarrow> delivery list \<Rightarrow> string \<Rightarrow> subscriber list" where
  "fanout_targets subs ds i =
     filter (\<lambda>s. interested s \<and> s_name s \<notin> d_subscriber ` {d \<in> set ds. d_message_id d = i}) subs"

lemma fanout_row_simps [simp]:
  "d_subscriber (fanout_row i p fresh) = s_name (snd p)"
  "d_message_id (fanout_row i p fresh) = i"
  "d_url (fanout_row i p fresh) = s_url (snd p)"
  "d_status (fanout_row i p fresh) = Pending"
  "d_attempts (fanout_row i p fresh) = 0"
  by (simp_all add: fanout_row_def new_delivery_def split: prod.splits)

lemma enqueue_fanout_eq:
  "enqueue_fanout (Inr subs) fresh ds i =
     Inr (map (\<lambda>p. fanout_row i p fresh) (enumerate 0 (fanout_targets subs ds i)))"
proof (cases "filter interested subs = []")
  case True
  then have "fanout_targets subs ds i = []" by (auto simp: fanout_targets_def filter_empty_conv)
  with True show ?thesis by (simp add: enqueue_fanout_def)
next
  case False
  then show ?thesis
    by (auto simp: enqueue_fanout_def Let_def fanout_targets_def conj_commute
        intro!: arg_cong [where f = "enumerate 0"] filter_cong)
qed

lemma enqueue_fanout_subscribers:
  "enqueue_fanout (Inr subs) fresh ds i = Inr ds' \<Longrightarrow>
   map d_subscriber ds' = map s_name (fanout_targets subs ds i) \<and> (\<forall>d \<in> set ds'. d_message_id d = i)"
  using map_enumerate_snd [of s_name 0] by (auto simp: enqueue_fanout_eq comp_def)

subsection \<open>Properties\<close>

definition sample_subscriber :: subscriber where
  "sample_subscriber =
     \<lparr>s_name = ''app'', s_url = ''http://app'', s_secret = ''x'', s_events = [JStr ''message.received'']\<rparr>"



text \<open>One attempt, for a subscriber still configured whose endpoint fails.\<close>

definition attempt_all ::
  "hmac_hex \<Rightarrow> (instant \<Rightarrow> string) \<Rightarrow> subscriber list \<Rightarrow> message \<Rightarrow>
   ((http_request \<Rightarrow> response res) \<times> instant) list \<Rightarrow> delivery \<Rightarrow> delivery res"
where
  "attempt_all hmac isof subs m es d =
     foldl (\<lambda>r (net, now). rbind r (\<lambda>d. deliver hmac isof net (Inr subs) now d m)) (Inr d) es"

definition refuses :: "(http_request \<Rightarrow> response res) \<Rightarrow> bool" where
  "refuses net \<longleftrightarrow>
     (\<forall>req. case net req of Inr resp \<Rightarrow> 300 \<le> status_code resp | Inl e \<Rightarrow> is_HTTPError e)"

lemma deliver_refused:
  assumes "find_subscriber subs (d_subscriber d) = Some sub" and "refuses net"
  shows "\<exists>code msg. deliver hmac isof net (Inr subs) now d m = Inr (failed_attempt (now, code, msg) d)"
proof (cases "net (delivery_request hmac isof sub d m)")
  case (Inl e)
  then have "is_HTTPError e" using assms(2) unfolding refuses_def by (metis old.sum.simps(5))
  then obtain exc where "e = HTTPError exc" by (cases e) auto
  then have "deliver hmac isof net (Inr subs) now d m = Inr (failed_attempt (now, None, take 500 exc) d)"
    using assms(1) Inl by (simp add: deliver_def Let_def failed_attempt_def)
  then show ?thesis by blast
next
  case (Inr resp)
  then have "300 \<le> status_code resp" using assms(2) unfolding refuses_def by (metis old.sum.simps(6))
  then have "deliver hmac isof net (Inr subs) now d m = Inr (failed_attempt (now, Some (status_code resp),
      ''HTTP '' @ dec_int (status_code resp) @ '': '' @ take 200 (resp_text resp)) d)"
    using assms(1) Inr by (simp add: deliver_def Let_def failed_attempt_def)
  then show ?thesis by blast
qed

lemma attempt_all_refused:
  assumes "find_subscriber subs (d_subscriber d) = Some sub" and "\<forall>e \<in> set es. refuses (fst e)"
  shows "\<exists>fs. length fs = length es \<and> attempt_all hmac isof subs m es d = Inr (fold failed_attempt fs d)"
  using assms
proof (induction es rule: rev_induct)
  case (snoc e es)
  then obtain fs where fs: "length fs = length es"
    "attempt_all hmac isof subs m es d = Inr (fold failed_attempt fs d)"
    by auto
  have "d_subscriber (fold failed_attempt fs d) = d_subscriber d"
    by (induction fs arbitrary: d) (auto simp: failed_attempt_def split: prod.splits)
  then obtain code msg where
    "deliver hmac isof (fst e) (Inr subs) (snd e) (fold failed_attempt fs d) m =
     Inr (failed_attempt (snd e, code, msg) (fold failed_attempt fs d))"
    using deliver_refused [of subs "fold failed_attempt fs d" sub "fst e" hmac isof "snd e" m] snoc.prems by auto
  with fs show ?case
    by (intro exI [of _ "fs @ [(snd e, code, msg)]"]) (cases e, simp add: attempt_all_def)
qed (simp add: attempt_all_def)

text \<open>
  A subscriber that keeps failing is given up after six attempts, not before: any run of
  attempts in which each answer is an error status or a network error counts one attempt
  each, ends without an exception, and leaves the row failed exactly when the attempts reach
  six; until then it is pending again.
\<close>

lemma delivery_gives_up_after_six:
  assumes "find_subscriber subs (d_subscriber d) = Some sub" and "\<forall>e \<in> set es. refuses (fst e)" and "es \<noteq> []"
  shows "\<exists>d'. attempt_all hmac isof subs m es d = Inr d' \<and> d_attempts d' = d_attempts d + int (length es) \<and>
    (d_status d' = Failed \<longleftrightarrow> 6 \<le> d_attempts d + int (length es)) \<and>
    (d_attempts d + int (length es) < 6 \<longrightarrow> d_status d' = Pending)"
proof -
  obtain fs where fs: "length fs = length es"
    "attempt_all hmac isof subs m es d = Inr (fold failed_attempt fs d)"
    using attempt_all_refused [OF assms(1,2)] by blast
  then have "fs \<noteq> []" using assms(3) by auto
  then show ?thesis
    using fs webhook_retry.dead_after [of fs d] webhook_retry.live_after [of fs d] webhook_retry.count_fold [of fs d]
    by (simp add: MAX_DELIVERY_ATTEMPTS_def)
qed

text \<open>Two subscribers of one name get two rows that violate the table's constraint.\<close>

lemma duplicate_subscriber_names_clash:
  assumes "\<not> distinct (map s_name (filter interested subs))"
    and "\<forall>d \<in> set (deliveries db). d_message_id d \<noteq> i"
    and "enqueue_fanout (Inr subs) fresh (deliveries db) i = Inr rows"
  shows "insert_deliveries rows db = Inl (IntegrityError ''webhook_deliveries'')"
proof -
  have "fanout_targets subs (deliveries db) i = filter interested subs"
    using assms(2) by (auto simp: fanout_targets_def intro!: filter_cong)
  then have "\<not> distinct (map d_subscriber rows)" "\<forall>d \<in> set rows. d_message_id d = i"
    using enqueue_fanout_subscribers [OF assms(3)] assms(1) by auto
  then have "\<not> distinct (map (\<lambda>d. (d_message_id d, d_subscriber d)) rows)"
    by (auto simp: distinct_map inj_on_def)
  then show ?thesis by (simp add: insert_deliveries_def deliveries_ok_def)
qed

end
