(* ===== verification/Inbound.thy ===== *)
theory Inbound
  imports Webhooks Phone
begin

section \<open>Received messages and pushed receipts (routes/inbound.py)\<close>

text \<open>
  The webhook the handset posts to, after its signature was verified. As in the send API,
  \<open>db0\<close> is the database the handler's lookup sees and \<open>db1\<close> the one its transaction runs on.
  Parameters: \<open>loads\<close> (\<open>json.loads\<close> of the raw body), \<open>fromiso\<close>
  (\<open>datetime.fromisoformat\<close>: wall clock and UTC offset), \<open>bind_other\<close> (what the driver
  stores, or raises, for a value that is not a string).
\<close>

type_synonym aware = "instant \<times> int"  \<comment> \<open>a wall clock reading and its UTC offset\<close>

text \<open>SQLite's \<open>DateTime\<close> writes the wall clock and drops the offset.\<close>

definition stored_instant :: "aware \<Rightarrow> instant" where
  "stored_instant a = fst a"

definition utc_instant :: "aware \<Rightarrow> instant" where
  "utc_instant a = fst a - snd a"

definition parse_timestamp :: "(string \<Rightarrow> (instant \<times> int option) option) \<Rightarrow> instant \<Rightarrow> json \<Rightarrow> aware" where
  "parse_timestamp fromiso now v =
     (case v of
        JStr s \<Rightarrow>
          (case fromiso (replace_Z s) of
             Some (wall, Some off) \<Rightarrow> (wall, off)
           | Some (wall, None) \<Rightarrow> (wall, 0)
           | None \<Rightarrow> (now, 0))
      | _ \<Rightarrow> (now, 0))"

definition event_payload :: "(string \<times> json) list \<Rightarrow> (string \<times> json) list" where
  "event_payload event =
     (let p = jget event ''payload'' in if is_dict p then the_dict p else event)"

definition extract_event :: "(string \<times> json) list \<Rightarrow> json \<times> json \<times> string \<times> json" where
  "extract_event event =
     (let p = event_payload event;
          sender = jor (jor (jget p ''phoneNumber'') (jget p ''from'')) (jget p ''sender'');
          text = jor (jor (jor (jget p ''message'') (jget p ''text'')) (jget p ''body'')) (JStr []);
          provider_id = py_str (jor (jor (jor (jget event ''id'') (jget p ''messageId'')) (jget p ''id'')) (JStr []));
          received_at = jor (jget p ''receivedAt'') (jget event ''receivedAt'')
      in (sender, text, provider_id, received_at))"

text \<open>A sender libphonenumber refuses (a shortcode, a name) is kept as it is, cut to the column.\<close>

definition sender_number :: "'n phonelib \<Rightarrow> config \<Rightarrow> json \<Rightarrow> string option res" where
  "sender_number lib cfg sender =
     (if \<not> truthy sender then Inr None
      else case normalize_value lib cfg sender of
             Inr n \<Rightarrow> Inr (Some n)
           | Inl (InvalidPhoneNumber _) \<Rightarrow> Inr (Some (take 20 (py_str sender)))
           | Inl e \<Rightarrow> Inl e)"

definition bind_text :: "(json \<Rightarrow> string res) \<Rightarrow> json \<Rightarrow> string res" where
  "bind_text bind_other v = (case v of JStr s \<Rightarrow> Inr s | _ \<Rightarrow> bind_other v)"

datatype inbound_reply =
    Ignored
  | Duplicate string
  | Accepted string nat
  | Unknown
  | Updated string

record inbound_seed =
  in_uuid :: string
  in_now :: instant      \<comment> \<open>the reading \<open>_parse_timestamp\<close> falls back to\<close>
  in_updated :: instant
  in_fanout :: "nat \<Rightarrow> string \<times> instant \<times> instant \<times> instant"

definition received_row :: "inbound_seed \<Rightarrow> string option \<Rightarrow> string \<Rightarrow> string \<Rightarrow> aware \<Rightarrow> message" where
  "received_row seed from_num text provider_id at =
     (new_message (in_uuid seed) (stored_instant at) (in_updated seed))
       \<lparr>direction := INBOUND, status := RECEIVED, from_number := from_num, body := text,
        service := ''inbound'',
        provider_message_id := (if provider_id = [] then None else Some provider_id)\<rparr>"

definition store_received ::
  "config \<Rightarrow> inbound_seed \<Rightarrow> message \<Rightarrow> database \<Rightarrow> (inbound_reply \<times> database) res"
where
  "store_received cfg seed m db1 =
     rbind (insert_messages [m] db1) (\<lambda>db2.
     rbind (enqueue_fanout (subscribers cfg) (in_fanout seed) (deliveries db2) (mid m)) (\<lambda>ds.
     rbind (insert_deliveries ds db2) (\<lambda>db3.
       Inr (Accepted (mid m) (length ds), db3))))"

definition receive_message ::
  "'n phonelib \<Rightarrow> config \<Rightarrow> (string \<Rightarrow> (instant \<times> int option) option) \<Rightarrow> (json \<Rightarrow> string res) \<Rightarrow>
   inbound_seed \<Rightarrow> (string \<times> json) list \<Rightarrow> database \<Rightarrow> database \<Rightarrow> (inbound_reply \<times> database) res"
where
  "receive_message lib cfg fromiso bind_other seed event db0 db1 =
     (case extract_event event of (sender, text, provider_id, received_at) \<Rightarrow>
        if \<not> truthy text then Inl (HTTPException 400 ''message body is empty'')
        else
          rbind (sender_number lib cfg sender) (\<lambda>from_num.
          rbind (if provider_id = [] then Inr None
                 else scalar_one_or_none
                        (filter (\<lambda>m. direction m = INBOUND \<and> provider_message_id m = Some provider_id)
                           (messages db0)))
            (\<lambda>already.
               case already of
                 Some m \<Rightarrow> Inr (Duplicate (mid m), db1)
               | None \<Rightarrow>
                   rbind (bind_text bind_other text) (\<lambda>body_text.
                     store_received cfg seed
                       (received_row seed from_num body_text provider_id
                          (parse_timestamp fromiso (in_now seed) received_at)) db1))))"

definition apply_receipt ::
  "instant \<Rightarrow> (string \<times> json) list \<Rightarrow> string \<Rightarrow> database \<Rightarrow> database \<Rightarrow> (inbound_reply \<times> database) res"
where
  "apply_receipt t event event_type db0 db1 =
     (let p = event_payload event;
          provider_id = py_str (jor (jor (jget p ''messageId'') (jget p ''id'')) (JStr []))
      in if provider_id = [] then Inr (Ignored, db1)
         else
           rbind (scalar_one_or_none
                    (filter (\<lambda>m. provider_message_id m = Some provider_id) (messages db0)))
             (\<lambda>found.
                case found of
                  None \<Rightarrow> Inr (Unknown, db1)
                | Some m \<Rightarrow>
                    if event_type = ''sms:delivered''
                    then rbind (commit_messages (\<lambda>_. t) [(m, m\<lparr>status := DELIVERED\<rparr>)] db1)
                           (\<lambda>db'. Inr (Updated (mid m), db'))
                    else Inr (Updated (mid m), db1)))"

definition handle_event ::
  "'n phonelib \<Rightarrow> config \<Rightarrow> (string \<Rightarrow> (instant \<times> int option) option) \<Rightarrow> (json \<Rightarrow> string res) \<Rightarrow>
   inbound_seed \<Rightarrow> json res \<Rightarrow> database \<Rightarrow> database \<Rightarrow> (inbound_reply \<times> database) res"
where
  "handle_event lib cfg fromiso bind_other seed parsed db0 db1 =
     (case parsed of
        Inl JSONDecodeError \<Rightarrow> Inl (HTTPException 400 ''body is not JSON'')
      | Inl e \<Rightarrow> Inl e
      | Inr v \<Rightarrow>
          if \<not> is_dict v then Inl (HTTPException 400 ''expected a JSON object'')
          else
            let event = the_dict v;
                event_type = jget_or event ''event'' (JStr ''sms:received'')
            in if event_type \<notin> {JStr ''sms:received'', JStr ''message.received'',
                                JStr ''sms:delivered'', JStr ''sms:sent''}
               then Inr (Ignored, db1)
               else if event_type \<in> {JStr ''sms:delivered'', JStr ''sms:sent''}
               then apply_receipt (in_updated seed) event (the_str event_type) db0 db1
               else receive_message lib cfg fromiso bind_other seed event db0 db1)"

text \<open>The route: signature first, then the event; an exception rolls the session back.\<close>

definition android_gateway_inbound ::
  "hmac_hex \<Rightarrow> (string \<Rightarrow> json res) \<Rightarrow> 'n phonelib \<Rightarrow> config \<Rightarrow>
   (string \<Rightarrow> (instant \<times> int option) option) \<Rightarrow> (json \<Rightarrow> string res) \<Rightarrow> inbound_seed \<Rightarrow>
   string option \<Rightarrow> string option \<Rightarrow> string \<Rightarrow> database \<Rightarrow> database \<Rightarrow> inbound_reply res \<times> database"
where
  "android_gateway_inbound hmac loads lib cfg fromiso bind_other seed x_signature x_hub raw db0 db1 =
     (case rbind (verify_inbound_signature hmac cfg x_signature x_hub raw)
             (\<lambda>raw_body. handle_event lib cfg fromiso bind_other seed (loads raw_body) db0 db1) of
        Inl e \<Rightarrow> (Inl e, db1)
      | Inr (reply, db') \<Rightarrow> (Inr reply, db'))"

subsection \<open>Facts\<close>

lemma received_row_simps:
  "direction (received_row seed from_num text_v pid at) = INBOUND"
  "status (received_row seed from_num text_v pid at) = RECEIVED"
  "service (received_row seed from_num text_v pid at) = ''inbound''"
  "mid (received_row seed from_num text_v pid at) = in_uuid seed"
  "provider_message_id (received_row seed from_num text_v pid at) = (if pid = [] then None else Some pid)"
  by (simp_all add: received_row_def new_message_def)

lemma store_received_Inr:
  assumes "store_received cfg seed m db1 = Inr (reply, db')" and "db_ok db1"
  shows "db_ok db' \<and> messages db' = messages db1 @ [m] \<and>
    (\<exists>subs ds. subscribers cfg = Inr subs \<and> deliveries db' = deliveries db1 @ ds \<and>
       reply = Accepted (mid m) (length ds) \<and>
       ds = map (\<lambda>p. fanout_row (mid m) p (in_fanout seed)) (enumerate 0 (fanout_targets subs (deliveries db1) (mid m))))"
proof -
  obtain db2 ds where ins: "insert_messages [m] db1 = Inr db2"
    and enq: "enqueue_fanout (subscribers cfg) (in_fanout seed) (deliveries db2) (mid m) = Inr ds"
    and ins2: "insert_deliveries ds db2 = Inr db'" and reply: "reply = Accepted (mid m) (length ds)"
    using assms(1) by (auto simp: store_received_def res_simps)
  obtain subs where subs: "subscribers cfg = Inr subs"
    using enq by (auto simp: enqueue_fanout_def res_simps)
  have "db_ok db2 \<and> messages db2 = messages db1 @ [m] \<and> deliveries db2 = deliveries db1"
    using insert_messages_ok [OF ins assms(2)] .
  moreover from this have "db_ok db' \<and> messages db' = messages db2 \<and> deliveries db' = deliveries db2 @ ds"
    using insert_deliveries_ok [OF ins2] by blast
  ultimately show ?thesis
    using enq by (auto simp: subs reply enqueue_fanout_eq)
qed

lemma receive_message_cases:
  assumes "receive_message lib cfg fromiso bind_other seed event db0 db1 = Inr (reply, db')"
  obtains (duplicate) m where "reply = Duplicate (mid m)" "db' = db1" "m \<in> set (messages db0)"
      "direction m = INBOUND"
    | (stored) m where "store_received cfg seed m db1 = Inr (reply, db')"
      "mid m = in_uuid seed" "direction m = INBOUND" "status m = RECEIVED" "service m = ''inbound''"
      "idempotency_key m = None" "attempts m = 0" "transport m = Sms"
proof -
  obtain sender bdy pid rat where ex: "extract_event event = (sender, bdy, pid, rat)"
    by (cases "extract_event event") auto
  define hits where "hits = filter (\<lambda>m. direction m = INBOUND \<and> provider_message_id m = Some pid) (messages db0)"
  obtain from_num already where
    al: "(if pid = [] then Inr None else scalar_one_or_none hits) = Inr already" and
    rest: "(case already of
        Some m \<Rightarrow> Inr (Duplicate (mid m), db1)
      | None \<Rightarrow> rbind (bind_text bind_other bdy) (\<lambda>body_text.
          store_received cfg seed (received_row seed from_num body_text pid
            (parse_timestamp fromiso (in_now seed) rat)) db1)) = Inr (reply, db')"
    using assms by (auto simp: receive_message_def ex res_simps hits_def split: if_splits)
  show thesis
  proof (cases already)
    case (Some m)
    then have "m \<in> set hits" using al by (cases hits rule: scalar_one_or_none.cases) (auto split: if_splits)
    then show thesis using duplicate rest Some by (auto simp: hits_def)
  next
    case None
    then obtain body_text where
      "store_received cfg seed (received_row seed from_num body_text pid
         (parse_timestamp fromiso (in_now seed) rat)) db1 = Inr (reply, db')"
      using rest by (auto simp: res_simps)
    then show thesis by (rule stored) (simp_all add: received_row_def new_message_def)
  qed
qed

lemma apply_receipt_cases:
  assumes "apply_receipt t event et db0 db1 = Inr (reply, db')"
  obtains (same) "db' = db1"
    | (delivered) m pid where "m \<in> set (messages db0)" "provider_message_id m = Some pid" "pid \<noteq> []"
      "commit_messages (\<lambda>_. t) [(m, m\<lparr>status := DELIVERED\<rparr>)] db1 = Inr db'"
proof -
  define pid where "pid = py_str (jor (jor (jget (event_payload event) ''messageId'')
                            (jget (event_payload event) ''id'')) (JStr []))"
  define hits where "hits = filter (\<lambda>m. provider_message_id m = Some pid) (messages db0)"
  show thesis
  proof (cases "pid = []")
    case True
    then show thesis using assms same by (auto simp: apply_receipt_def pid_def [symmetric] Let_def)
  next
    case False
    then obtain found where sc: "scalar_one_or_none hits = Inr found"
      and rest: "(case found of None \<Rightarrow> Inr (Unknown, db1)
        | Some m \<Rightarrow> if et = ''sms:delivered''
            then rbind (commit_messages (\<lambda>_. t) [(m, m\<lparr>status := DELIVERED\<rparr>)] db1)
                   (\<lambda>db'. Inr (Updated (mid m), db'))
            else Inr (Updated (mid m), db1)) = Inr (reply, db')"
      using assms by (auto simp: apply_receipt_def pid_def [symmetric] hits_def Let_def res_simps)
    show thesis
    proof (cases found)
      case None
      then show thesis using rest same by simp
    next
      case (Some m)
      then have "m \<in> set hits" using sc by (cases hits rule: scalar_one_or_none.cases) auto
      then show thesis
        using rest Some same delivered [of m pid] False
        by (auto simp: hits_def res_simps split: if_splits)
    qed
  qed
qed

lemma handle_event_cases:
  assumes "handle_event lib cfg fromiso bind_other seed parsed db0 db1 = Inr (reply, db')"
  obtains (same) "db' = db1"
    | (receipt) event et where "apply_receipt (in_updated seed) event et db0 db1 = Inr (reply, db')"
    | (receive) event where "receive_message lib cfg fromiso bind_other seed event db0 db1 = Inr (reply, db')"
  using assms unfolding handle_event_def Let_def
  by (cases parsed) (auto split: exn.splits if_splits)

subsection \<open>Properties\<close>

text \<open>An event of a configured relay, for the witnesses.\<close>

definition sample_event :: "(string \<times> json) list" where
  "sample_event =
     [(''payload'', JObj [(''phoneNumber'', JStr ''+1555''), (''message'', JStr ''yo''), (''messageId'', JStr ''g1'')])]"

definition sample_inbound_seed :: inbound_seed where
  "sample_inbound_seed = \<lparr>in_uuid = ''u1'', in_now = 0, in_updated = 0, in_fanout = (\<lambda>_. (''d1'', 0, 0, 0))\<rparr>"

definition sample_inbound :: "database \<Rightarrow> inbound_reply res \<times> database" where
  "sample_inbound db =
     android_gateway_inbound (\<lambda>_ _. ''5a'') (\<lambda>_. Inr (JObj sample_event)) sample_lib sample_config (\<lambda>_. None)
       (\<lambda>_. Inl (OtherException [])) sample_inbound_seed (Some ''5a'') None ''raw'' db db"

lemma sample_inbound_accepted:
  "sample_inbound \<lparr>messages = [], deliveries = []\<rparr> =
     (Inr (Accepted ''u1'' 1), snd (sample_inbound \<lparr>messages = [], deliveries = []\<rparr>))"
proof -
  have "fst (sample_inbound \<lparr>messages = [], deliveries = []\<rparr>) = Inr (Accepted ''u1'' 1)" by code_simp
  then show ?thesis by (simp add: prod_eq_iff)
qed

lemma empty_db_ok: "db_ok \<lparr>messages = [], deliveries = []\<rparr>"
  by (simp add: db_ok_defs)

lemma apply_receipt_reply: "apply_receipt t event et db0 db1 \<noteq> Inr (Accepted i n, db')"
proof
  assume a: "apply_receipt t event et db0 db1 = Inr (Accepted i n, db')"
  define pid where "pid = py_str (jor (jor (jget (event_payload event) ''messageId'')
                            (jget (event_payload event) ''id'')) (JStr []))"
  define hits where "hits = filter (\<lambda>m. provider_message_id m = Some pid) (messages db0)"
  from a show False
    unfolding apply_receipt_def pid_def [symmetric] hits_def [symmetric] Let_def
    by (auto simp: res_simps split: if_splits option.splits)
qed

lemma store_received_rows:
  "store_received cfg seed m db = Inr (reply, db') \<Longrightarrow>
   messages db' = messages db @ [m] \<and> (\<exists>n. reply = Accepted (mid m) n)"
  by (auto simp: store_received_def insert_messages_def insert_deliveries_def rbind_Inr_iff split: if_split_asm)

text \<open>An accepted event, taken apart.\<close>

lemma inbound_accepted:
  assumes "android_gateway_inbound hmac loads lib cfg fromiso bind_other seed xs xh raw db0 db1 = (Inr (Accepted i n), db')"
  obtains v where "verify_inbound_signature hmac cfg xs xh raw = Inr raw" "loads raw = Inr v" "is_dict v"
    "jget_or (the_dict v) ''event'' (JStr ''sms:received'') \<in> {JStr ''sms:received'', JStr ''message.received''}"
    "receive_message lib cfg fromiso bind_other seed (the_dict v) db0 db1 = Inr (Accepted i n, db')"
proof -
  obtain b where ver: "verify_inbound_signature hmac cfg xs xh raw = Inr b"
    and ev: "handle_event lib cfg fromiso bind_other seed (loads b) db0 db1 = Inr (Accepted i n, db')"
    using assms by (auto simp: android_gateway_inbound_def res_simps split: sum.splits)
  have "b = raw" using ver by (auto simp: verify_inbound_signature_def Let_def res_simps split: if_splits)
  moreover obtain v where v: "loads b = Inr v"
    using ev by (cases "loads b") (auto simp: handle_event_def split: exn.splits)
  moreover have "is_dict v" using ev v by (auto simp: handle_event_def split: if_splits)
  moreover have "jget_or (the_dict v) ''event'' (JStr ''sms:received'') \<in> {JStr ''sms:received'', JStr ''message.received''}
      \<and> receive_message lib cfg fromiso bind_other seed (the_dict v) db0 db1 = Inr (Accepted i n, db')"
    using ev v by (auto simp: handle_event_def Let_def apply_receipt_reply split: if_splits)
  ultimately show thesis using that ver by blast
qed

lemma receive_message_accepted:
  assumes "receive_message lib cfg fromiso bind_other seed event db0 db1 = Inr (Accepted i n, db')"
    and "extract_event event = (sender, text_v, pid, rat)"
  obtains from_num body_text where "truthy text_v" "sender_number lib cfg sender = Inr from_num"
    "pid \<noteq> [] \<longrightarrow> filter (\<lambda>m. direction m = INBOUND \<and> provider_message_id m = Some pid) (messages db0) = []"
    "store_received cfg seed (received_row seed from_num body_text pid (parse_timestamp fromiso (in_now seed) rat)) db1
       = Inr (Accepted i n, db')"
proof -
  define hits where "hits = filter (\<lambda>m. direction m = INBOUND \<and> provider_message_id m = Some pid) (messages db0)"
  obtain from_num already where t: "truthy text_v" and s: "sender_number lib cfg sender = Inr from_num"
    and al: "(if pid = [] then Inr None else scalar_one_or_none hits) = Inr already"
    and rest: "(case already of
        Some m \<Rightarrow> Inr (Duplicate (mid m), db1)
      | None \<Rightarrow> rbind (bind_text bind_other text_v) (\<lambda>body_text.
          store_received cfg seed (received_row seed from_num body_text pid
            (parse_timestamp fromiso (in_now seed) rat)) db1)) = Inr (Accepted i n, db')"
    using assms by (auto simp: receive_message_def res_simps hits_def split: if_splits)
  then have "already = None" by (cases already) auto
  moreover from this have "pid \<noteq> [] \<longrightarrow> hits = []"
    using al by (cases hits rule: scalar_one_or_none.cases) (auto split: if_splits)
  ultimately show thesis using rest t s that by (auto simp: res_simps hits_def)
qed

text \<open>The rows an accepted event adds.\<close>

lemma inbound_rows:
  assumes "android_gateway_inbound hmac loads lib cfg fromiso bind_other seed xs xh raw db0 db1 = (Inr (Accepted i n), db')"
    and "db_ok db1"
  obtains m subs where "verify_inbound_signature hmac cfg xs xh raw = Inr raw" "db_ok db'"
    "messages db' = messages db1 @ [m]" "mid m = i" "direction m = INBOUND" "status m = RECEIVED" "service m = ''inbound''"
    "subscribers cfg = Inr subs" "n = length (filter interested subs)" "i \<notin> mid ` set (messages db1)"
    "deliveries db' = deliveries db1 @ map (\<lambda>p. fanout_row i p (in_fanout seed)) (enumerate 0 (filter interested subs))"
proof -
  obtain v where ver: "verify_inbound_signature hmac cfg xs xh raw = Inr raw"
    and rm: "receive_message lib cfg fromiso bind_other seed (the_dict v) db0 db1 = Inr (Accepted i n, db')"
    using inbound_accepted [OF assms(1)] by blast
  obtain sender text_v pid rat where ex: "extract_event (the_dict v) = (sender, text_v, pid, rat)"
    by (cases "extract_event (the_dict v)") auto
  obtain from_num body_text where st0: "store_received cfg seed
      (received_row seed from_num body_text pid (parse_timestamp fromiso (in_now seed) rat)) db1 = Inr (Accepted i n, db')"
    by (rule receive_message_accepted [OF rm ex])
  define m where "m = received_row seed from_num body_text pid (parse_timestamp fromiso (in_now seed) rat)"
  note st = st0 [folded m_def]
  have m: "direction m = INBOUND" "status m = RECEIVED" "service m = ''inbound''"
    by (simp_all add: m_def received_row_simps)
  have r: "db_ok db'" "messages db' = messages db1 @ [m]" using store_received_Inr [OF st assms(2)] by auto
  obtain subs where ds: "subscribers cfg = Inr subs" "mid m = i"
    "n = length (fanout_targets subs (deliveries db1) i)"
    "deliveries db' = deliveries db1 @ map (\<lambda>p. fanout_row i p (in_fanout seed)) (enumerate 0 (fanout_targets subs (deliveries db1) i))"
    using store_received_Inr [OF st assms(2)] by auto
  have new: "i \<notin> mid ` set (messages db1)"
    using r ds(2) by (auto simp: db_ok_def messages_ok_def)
  have "\<forall>d \<in> set (deliveries db1). d_message_id d \<in> mid ` set (messages db1)"
    using assms(2) by (simp add: db_ok_def deliveries_ok_def list_all_iff)
  then have "\<forall>d \<in> set (deliveries db1). d_message_id d \<noteq> i" using new by metis
  then have "fanout_targets subs (deliveries db1) i = filter interested subs"
    by (auto simp: fanout_targets_def intro!: filter_cong)
  then show thesis using that [OF ver r ds(2) m ds(1) _ new] ds(3,4) by simp
qed

text \<open>
  C20. An accepted event is stored once and fanned out in the same commit: its signature was
  the HMAC of the body, exactly one received row is added, with the id that is answered, and
  with it one pending delivery for each subscriber of received messages, in configuration
  order, as many as answered; the tables stay consistent.
\<close>

theorem inbound_stored_and_fanned_out:
  assumes "android_gateway_inbound hmac loads lib cfg fromiso bind_other seed xs xh raw db0 db1 = (Inr (Accepted i n), db')"
    and "db_ok db1"
  shows "verify_inbound_signature hmac cfg xs xh raw = Inr raw \<and> db_ok db' \<and>
    (\<exists>m ds subs. messages db' = messages db1 @ [m] \<and> mid m = i \<and> direction m = INBOUND \<and> status m = RECEIVED \<and>
       service m = ''inbound'' \<and> subscribers cfg = Inr subs \<and> deliveries db' = deliveries db1 @ ds \<and> length ds = n \<and>
       map (\<lambda>d. (d_message_id d, d_subscriber d)) ds = map (\<lambda>s. (i, s_name s)) (filter interested subs) \<and>
       (\<forall>d \<in> set ds. d_status d = Pending \<and> d_attempts d = 0))"
proof -
  obtain m subs where m: "verify_inbound_signature hmac cfg xs xh raw = Inr raw" "db_ok db'"
    "messages db' = messages db1 @ [m]" "mid m = i" "direction m = INBOUND" "status m = RECEIVED" "service m = ''inbound''"
    "subscribers cfg = Inr subs" "n = length (filter interested subs)"
    "deliveries db' = deliveries db1 @ map (\<lambda>p. fanout_row i p (in_fanout seed)) (enumerate 0 (filter interested subs))"
    by (rule inbound_rows [OF assms])
  moreover have "map (\<lambda>d. (d_message_id d, d_subscriber d))
      (map (\<lambda>p. fanout_row i p (in_fanout seed)) (enumerate 0 (filter interested subs))) =
      map (\<lambda>s. (i, s_name s)) (filter interested subs)"
    using map_enumerate_snd [of "\<lambda>s. (i, s_name s)" 0 "filter interested subs"] by (simp add: comp_def)
  ultimately show ?thesis by fastforce
qed

theorem inbound_stored_and_fanned_out_witness:
  "\<exists>m ds. messages (snd (sample_inbound \<lparr>messages = [], deliveries = []\<rparr>)) = [] @ [m] \<and> mid m = ''u1'' \<and>
     deliveries (snd (sample_inbound \<lparr>messages = [], deliveries = []\<rparr>)) = [] @ ds \<and>
     map (\<lambda>d. (d_message_id d, d_subscriber d)) ds = [(''u1'', ''app'')]"
proof -
  have "filter interested [\<lparr>s_name = ''app'', s_url = ''http://app'', s_secret = ''x'', s_events = [JStr ''message.received'']\<rparr>] =
      [\<lparr>s_name = ''app'', s_url = ''http://app'', s_secret = ''x'', s_events = [JStr ''message.received'']\<rparr>]"
    by (simp add: interested_def)
  then show ?thesis
    using inbound_stored_and_fanned_out [OF sample_inbound_accepted [unfolded sample_inbound_def] empty_db_ok]
    by (auto simp: sample_inbound_def sample_config_def)
qed

text \<open>
  C21. The gateway may repeat an event until it sees the answer: once an event with a
  provider id was accepted, the same event again is answered as a duplicate of the same
  message and changes nothing.
\<close>

theorem inbound_retry_is_duplicate:
  assumes "android_gateway_inbound hmac loads lib cfg fromiso bind_other seed xs xh raw db db = (Inr (Accepted i n), db')"
    and "loads raw = Inr (JObj event)" and "extract_event event = (sender, text_v, pid, rat)" and "pid \<noteq> []"
  shows "android_gateway_inbound hmac loads lib cfg fromiso bind_other seed' xs xh raw db' db' = (Inr (Duplicate i), db')"
proof -
  obtain v where ver: "verify_inbound_signature hmac cfg xs xh raw = Inr raw" and v: "loads raw = Inr v" "is_dict v"
    and ty: "jget_or (the_dict v) ''event'' (JStr ''sms:received'') \<in> {JStr ''sms:received'', JStr ''message.received''}"
    and rm: "receive_message lib cfg fromiso bind_other seed (the_dict v) db db = Inr (Accepted i n, db')"
    using inbound_accepted [OF assms(1)] by blast
  have ev: "the_dict v = event" using v assms(2) by auto
  obtain from_num body_text where tx: "truthy text_v" "sender_number lib cfg sender = Inr from_num"
    and no: "pid \<noteq> [] \<longrightarrow> filter (\<lambda>m. direction m = INBOUND \<and> provider_message_id m = Some pid) (messages db) = []"
    and st: "store_received cfg seed (received_row seed from_num body_text pid (parse_timestamp fromiso (in_now seed) rat)) db
       = Inr (Accepted i n, db')"
    by (rule receive_message_accepted [OF rm [unfolded ev] assms(3)])
  let ?m = "received_row seed from_num body_text pid (parse_timestamp fromiso (in_now seed) rat)"
  have "messages db' = messages db @ [?m]" "mid ?m = i"
    using store_received_rows [OF st] by simp_all
  then have "filter (\<lambda>m. direction m = INBOUND \<and> provider_message_id m = Some pid) (messages db') = [?m]"
    using no assms(4) by (simp add: received_row_simps)
  then have "receive_message lib cfg fromiso bind_other seed' event db' db' = Inr (Duplicate i, db')"
    using tx assms(3,4) \<open>mid ?m = i\<close> by (simp add: receive_message_def)
  then show ?thesis
    using ver v ty ev by (auto simp: android_gateway_inbound_def handle_event_def Let_def)
qed

theorem inbound_retry_is_duplicate_witness:
  "sample_inbound (snd (sample_inbound \<lparr>messages = [], deliveries = []\<rparr>)) =
     (Inr (Duplicate ''u1''), snd (sample_inbound \<lparr>messages = [], deliveries = []\<rparr>))"
proof -
  have "extract_event sample_event = (JStr ''+1555'', JStr ''yo'', ''g1'', JNull)" by code_simp
  then show ?thesis
    using inbound_retry_is_duplicate [OF sample_inbound_accepted [unfolded sample_inbound_def], of sample_event]
    by (simp add: sample_inbound_def)
qed

text \<open>
  C22. The inbound route is all or nothing and does nothing unsigned: an exception leaves the
  tables as they were, a body whose signature is refused gets that refusal and changes
  nothing, and whatever happens the tables stay consistent and no stored message is lost.
\<close>

theorem inbound_atomic:
  assumes "android_gateway_inbound hmac loads lib cfg fromiso bind_other seed xs xh raw db0 db1 = (res, db')"
    and "db_ok db1"
  shows "db_ok db' \<and> (\<forall>e. res = Inl e \<longrightarrow> db' = db1) \<and> set (map mid (messages db1)) \<subseteq> set (map mid (messages db')) \<and>
    (\<forall>e. verify_inbound_signature hmac cfg xs xh raw = Inl e \<longrightarrow> res = Inl e \<and> db' = db1)"
proof -
  let ?run = "rbind (verify_inbound_signature hmac cfg xs xh raw)
    (\<lambda>b. handle_event lib cfg fromiso bind_other seed (loads b) db0 db1)"
  have "db_ok db' \<and> set (map mid (messages db1)) \<subseteq> set (map mid (messages db'))" if "?run = Inr (reply, db')" for reply
  proof -
    from that obtain b where "handle_event lib cfg fromiso bind_other seed (loads b) db0 db1 = Inr (reply, db')"
      by (auto simp: res_simps)
    then show ?thesis
    proof (rule handle_event_cases)
      fix event et
      assume "apply_receipt (in_updated seed) event et db0 db1 = Inr (reply, db')"
      then show ?thesis
      proof (rule apply_receipt_cases)
        fix m pid
        assume "commit_messages (\<lambda>_. in_updated seed) [(m, m\<lparr>status := DELIVERED\<rparr>)] db1 = Inr db'"
        from commit_messages_ok [OF this assms(2)] show ?thesis by simp
      qed (use assms(2) in simp)
    next
      fix event
      assume "receive_message lib cfg fromiso bind_other seed event db0 db1 = Inr (reply, db')"
      then show ?thesis
      proof (rule receive_message_cases)
        fix m
        assume "store_received cfg seed m db1 = Inr (reply, db')"
        from store_received_Inr [OF this assms(2)] show ?thesis by auto
      qed (use assms(2) in simp)
    qed (use assms(2) in simp)
  qed
  then show ?thesis
    using assms by (cases ?run) (auto simp: android_gateway_inbound_def)
qed

theorem inbound_atomic_witness:
  "android_gateway_inbound (\<lambda>_ _. ''5a'') (\<lambda>_. Inr (JObj sample_event)) sample_lib sample_config (\<lambda>_. None)
     (\<lambda>_. Inl (OtherException [])) sample_inbound_seed (Some ''5b'') None ''raw''
     \<lparr>messages = [], deliveries = []\<rparr> \<lparr>messages = [], deliveries = []\<rparr> =
   (Inl (HTTPException 401 ''bad signature''), \<lparr>messages = [], deliveries = []\<rparr>)"
proof -
  have "verify_inbound_signature (\<lambda>_ _. ''5a'') sample_config (Some ''5b'') None ''raw'' = Inl (HTTPException 401 ''bad signature'')"
    by code_simp
  then show ?thesis using inbound_atomic [OF surjective_pairing empty_db_ok] by (metis prod.collapse)
qed

text \<open>
  C23. A pushed receipt settles the one message it names: when exactly one row carries the
  provider id, "sms:delivered" sets that row's status to delivered, whatever it was before,
  stamps it, and leaves every other row alone, while "sms:sent" changes nothing.
\<close>

theorem receipt_marks_delivered:
  assumes "db_ok db" and "m \<in> set (messages db)" and "provider_message_id m = Some pid" and "pid \<noteq> []"
    and "\<forall>m' \<in> set (messages db). provider_message_id m' = Some pid \<longrightarrow> m' = m"
    and "py_str (jor (jor (jget (event_payload event) ''messageId'') (jget (event_payload event) ''id'')) (JStr [])) = pid"
  shows "apply_receipt t event ''sms:sent'' db db = Inr (Updated (mid m), db) \<and>
    (\<exists>db'. apply_receipt t event ''sms:delivered'' db db = Inr (Updated (mid m), db') \<and>
       deliveries db' = deliveries db \<and>
       set (messages db') = set (messages db) - {m} \<union>
         {if status m = DELIVERED then m else m\<lparr>status := DELIVERED, updated_at := t\<rparr>})"
proof -
  have dist: "distinct (map mid (messages db))" by (rule db_ok_distinct [OF assms(1)])
  let ?hits = "filter (\<lambda>m. provider_message_id m = Some pid) (messages db)"
  have "set ?hits = {m}" using assms(2,3,5) unfolding set_filter by blast
  moreover have "distinct ?hits" using dist by (simp add: distinct_map)
  ultimately have hits: "?hits = [m]" by (rule distinct_singleton)
  have same: "m' = m" if "m' \<in> set (messages db)" "mid m' = mid m" for m'
    using dist assms(2) that by (meson distinct_map inj_onD)
  obtain db' where db': "commit_messages (\<lambda>_. t) [(m, m\<lparr>status := DELIVERED\<rparr>)] db = Inr db'"
    "deliveries db' = deliveries db"
    "set (messages db') = {m' \<in> set (messages db). mid m' \<noteq> mid m} \<union> {msg.written (\<lambda>_. t) (m, m\<lparr>status := DELIVERED\<rparr>)}"
    using commit_owned [OF assms(1), of "[(m, m\<lparr>status := DELIVERED\<rparr>)]" "\<lambda>_. t"] assms(2) by auto
  have "{m' \<in> set (messages db). mid m' \<noteq> mid m} = set (messages db) - {m}" using same by auto
  moreover have "msg.written (\<lambda>_. t) (m, m\<lparr>status := DELIVERED\<rparr>) =
      (if status m = DELIVERED then m else m\<lparr>status := DELIVERED, updated_at := t\<rparr>)"
  proof (cases "status m = DELIVERED")
    case True
    then have "m\<lparr>status := DELIVERED\<rparr> = m" by simp
    with True show ?thesis by (simp add: msg.written_def)
  next
    case False
    then have "m\<lparr>status := DELIVERED\<rparr> \<noteq> m" by (metis message.select_convs(3) message.surjective message.update_convs(3))
    with False show ?thesis by (simp add: msg.written_def message_changes_self)
  qed
  moreover have "apply_receipt t event ''sms:delivered'' db db = Inr (Updated (mid m), db')"
    "apply_receipt t event ''sms:sent'' db db = Inr (Updated (mid m), db)"
    unfolding apply_receipt_def Let_def assms(6) using hits db'(1) assms(4) by simp_all
  ultimately show ?thesis using db'(2,3) by auto
qed

theorem receipt_marks_delivered_witness:
  "\<exists>db'. apply_receipt 9 [(''id'', JStr ''g1'')] ''sms:delivered''
       \<lparr>messages = [sample_message\<lparr>status := FAILED, provider_message_id := Some ''g1''\<rparr>], deliveries = []\<rparr>
       \<lparr>messages = [sample_message\<lparr>status := FAILED, provider_message_id := Some ''g1''\<rparr>], deliveries = []\<rparr> =
     Inr (Updated ''m1'', db') \<and>
     set (messages db') = {sample_message\<lparr>status := DELIVERED, provider_message_id := Some ''g1'', updated_at := 9\<rparr>}"
proof -
  have "py_str (jor (jor (jget (event_payload [(''id'', JStr ''g1'')]) ''messageId'')
      (jget (event_payload [(''id'', JStr ''g1'')]) ''id'')) (JStr [])) = ''g1''" by code_simp
  then show ?thesis
    using receipt_marks_delivered
      [of "\<lparr>messages = [sample_message\<lparr>status := FAILED, provider_message_id := Some ''g1''\<rparr>], deliveries = []\<rparr>"
          "sample_message\<lparr>status := FAILED, provider_message_id := Some ''g1''\<rparr>" "''g1''" "[(''id'', JStr ''g1'')]" 9]
    by (auto simp: db_ok_defs sample_row)
qed

text \<open>A timestamp with an offset is stored as its wall clock, not as the instant it names.\<close>

lemma offset_timestamp_shifted:
  "fromiso (replace_Z s) = Some (wall, Some off) \<Longrightarrow> off \<noteq> 0 \<Longrightarrow>
   stored_instant (parse_timestamp fromiso now (JStr s)) \<noteq> utc_instant (parse_timestamp fromiso now (JStr s))"
  by (simp add: parse_timestamp_def stored_instant_def utc_instant_def)

end
