(* ===== verification/Outbound.thy ===== *)
theory Outbound
  imports Db Notifications
begin

section \<open>The send and query API (routes/messages.py, schemas.py)\<close>

text \<open>
  \<open>send_message\<close>, \<open>get_message\<close> and \<open>list_messages\<close>. A handler awaits the database several
  times, and other handlers and the worker loops run in between: \<open>send_message\<close> takes the
  database as its first lookup sees it (\<open>db0\<close>), as its commit sees it (\<open>db1\<close>) and as the
  lookup after a failed commit sees it (\<open>db2\<close>); where nothing interferes they are equal.
  It returns the response, or the exception, and the database it leaves. \<open>fresh i\<close> has what
  \<open>uuid4\<close> and the clock yield for the i-th row.
\<close>

datatype recipients = One string | Many "string list"

record send_request =
  sr_to :: recipients
  sr_body :: string
  sr_priority :: int
  sr_key :: "string option"

text \<open>The constraints FastAPI checks before the handler runs (422 otherwise).\<close>

definition send_request_valid :: "send_request \<Rightarrow> bool" where
  "send_request_valid r \<longleftrightarrow>
     1 \<le> sr_priority r \<and> sr_priority r \<le> 5 \<and>
     1 \<le> length (sr_body r) \<and> length (sr_body r) \<le> 4000 \<and>
     (case sr_key r of None \<Rightarrow> True | Some k \<Rightarrow> length k \<le> 128)"

record message_out =
  o_id :: string
  o_direction :: direction
  o_status :: message_status
  o_to :: "string option"
  o_from :: "string option"
  o_body :: string
  o_service :: string
  o_attempts :: int
  o_transport :: transport
  o_notification_topic :: "string option"
  o_notification_priority :: int
  o_provider_message_id :: "string option"
  o_error :: "string option"
  o_created_at :: instant
  o_updated_at :: instant
  o_sent_at :: "instant option"

definition message_out_of :: "message \<Rightarrow> message_out" where
  "message_out_of m =
     \<lparr>o_id = mid m, o_direction = direction m, o_status = status m, o_to = to_number m,
      o_from = from_number m, o_body = body m, o_service = service m, o_attempts = attempts m,
      o_transport = transport m, o_notification_topic = notification_topic m,
      o_notification_priority = notification_priority m,
      o_provider_message_id = provider_message_id m, o_error = error m,
      o_created_at = created_at m, o_updated_at = updated_at m, o_sent_at = sent_at m\<rparr>"

definition existing_by_idempotency_key :: "database \<Rightarrow> string \<Rightarrow> string \<Rightarrow> message option res" where
  "existing_by_idempotency_key db svc key =
     scalar_one_or_none (filter (\<lambda>m. service m = svc \<and> idempotency_key m = Some key) (messages db))"

definition recipient_list :: "send_request \<Rightarrow> string list" where
  "recipient_list r = (case sr_to r of One s \<Rightarrow> [s] | Many ss \<Rightarrow> ss)"

definition has_key :: "send_request \<Rightarrow> bool" where
  "has_key r \<longleftrightarrow> sr_key r \<noteq> None \<and> sr_key r \<noteq> Some []"

text \<open>Everything the handler does before it asks the database.\<close>

definition send_prepare :: "'n phonelib \<Rightarrow> config \<Rightarrow> send_request \<Rightarrow> string list res" where
  "send_prepare lib cfg r =
     (let recipients = recipient_list r
      in if recipients = [] then Inl (HTTPException 422 ''no recipients'')
         else case mapR (\<lambda>x. normalize lib cfg x None) recipients of
                Inl (InvalidPhoneNumber msg) \<Rightarrow> Inl (HTTPException 422 msg)
              | Inl e \<Rightarrow> Inl e
              | Inr normalized \<Rightarrow>
                  if has_key r \<and> length normalized > 1
                  then Inl (HTTPException 422 ''idempotency_key is only valid for a single recipient'')
                  else Inr normalized)"

record row_seed =
  seed_id :: string
  seed_due :: instant
  seed_created :: instant
  seed_updated :: instant

definition queued_row :: "send_request \<Rightarrow> string \<Rightarrow> row_seed \<Rightarrow> string \<Rightarrow> message" where
  "queued_row r svc seed number =
     (new_message (seed_id seed) (seed_created seed) (seed_updated seed))
       \<lparr>direction := OUTBOUND, status := QUEUED, to_number := Some number, body := sr_body r,
        notification_priority := sr_priority r, service := svc, idempotency_key := sr_key r,
        next_attempt_at := Some (seed_due seed)\<rparr>"

definition route_row ::
  "'n phonelib \<Rightarrow> (string \<Rightarrow> string \<Rightarrow> bool res) \<Rightarrow> config \<Rightarrow> string \<Rightarrow> string \<times> message \<Rightarrow> message res"
where
  "route_row lib re_search cfg svc p =
     rbind (topic_for lib re_search cfg svc (fst p) (body (snd p)))
       (\<lambda>t. Inr ((snd p)\<lparr>notification_topic := t,
                          transport := (if t \<noteq> None \<and> t \<noteq> Some [] then Ntfy else Sms)\<rparr>))"

definition created_rows ::
  "'n phonelib \<Rightarrow> (string \<Rightarrow> string \<Rightarrow> bool res) \<Rightarrow> config \<Rightarrow> send_request \<Rightarrow> string \<Rightarrow>
   (nat \<Rightarrow> row_seed) \<Rightarrow> string list \<Rightarrow> message list res"
where
  "created_rows lib re_search cfg r svc fresh normalized =
     mapR (route_row lib re_search cfg svc)
       (map (\<lambda>(i, number). (number, queued_row r svc (fresh i) number)) (enumerate 0 normalized))"

definition key_lookup :: "send_request \<Rightarrow> string \<Rightarrow> database \<Rightarrow> message option res" where
  "key_lookup r svc db =
     (case sr_key r of
        Some k \<Rightarrow> if k \<noteq> [] then existing_by_idempotency_key db svc k else Inr None
      | None \<Rightarrow> Inr None)"

definition send_message ::
  "'n phonelib \<Rightarrow> (string \<Rightarrow> string \<Rightarrow> bool res) \<Rightarrow> config \<Rightarrow> send_request \<Rightarrow> string \<Rightarrow>
   (nat \<Rightarrow> row_seed) \<Rightarrow> database \<Rightarrow> database \<Rightarrow> database \<Rightarrow> message_out list res \<times> database"
where
  "send_message lib re_search cfg r svc fresh db0 db1 db2 =
     (case send_prepare lib cfg r of
        Inl e \<Rightarrow> (Inl e, db1)
      | Inr normalized \<Rightarrow>
         (case key_lookup r svc db0 of
            Inl e \<Rightarrow> (Inl e, db1)
          | Inr (Some existing) \<Rightarrow> (Inr [message_out_of existing], db1)
          | Inr None \<Rightarrow>
             (case created_rows lib re_search cfg r svc fresh normalized of
                Inl e \<Rightarrow> (Inl e, db1)
              | Inr created \<Rightarrow>
                 (case insert_messages created db1 of
                    Inr db' \<Rightarrow> (Inr (map message_out_of created), db')
                  | Inl integrity_error \<Rightarrow>
                     (case key_lookup r svc db2 of
                        Inl e \<Rightarrow> (Inl e, db1)
                      | Inr (Some existing) \<Rightarrow> (Inr [message_out_of existing], db1)
                      | Inr None \<Rightarrow> (Inl integrity_error, db1))))))"

definition get_message :: "database \<Rightarrow> string \<Rightarrow> string \<Rightarrow> message_out res" where
  "get_message db svc message_id =
     (case get_message_row message_id db of
        None \<Rightarrow> Inl (HTTPException 404 ''message not found'')
      | Some m \<Rightarrow>
          if direction m = OUTBOUND \<and> service m \<noteq> svc
          then Inl (HTTPException 404 ''message not found'')
          else Inr (message_out_of m))"

definition list_filter :: "string \<Rightarrow> string option \<Rightarrow> string option \<Rightarrow> message \<Rightarrow> bool" where
  "list_filter svc dir st m \<longleftrightarrow>
     (service m = svc \<or> direction m = INBOUND) \<and>
     (case dir of None \<Rightarrow> True | Some d \<Rightarrow> d = [] \<or> direction_value (direction m) = d) \<and>
     (case st of None \<Rightarrow> True | Some s \<Rightarrow> s = [] \<or> status_value (status m) = s)"

text \<open>
  \<open>ORDER BY created_at DESC\<close>: SQLite walks the index backwards, so rows of equal instants
  come in reverse of the order of insertion. The count and the page are two queries.
\<close>

definition list_messages ::
  "database \<Rightarrow> database \<Rightarrow> string \<Rightarrow> string option \<Rightarrow> string option \<Rightarrow> int \<Rightarrow> int \<Rightarrow>
   (message_out list \<times> nat) res"
where
  "list_messages db_count db_rows svc dir st limit offset =
     (if limit < 1 \<or> 500 < limit \<or> offset < 0 then Inl (HTTPException 422 ''query parameter out of range'')
      else
        let total = length (filter (list_filter svc dir st) (messages db_count));
            found = rev (sort_key created_at (filter (list_filter svc dir st) (messages db_rows)))
        in Inr (map message_out_of (take (nat limit) (drop (nat offset) found)), total))"

subsection \<open>Facts\<close>

lemma send_prepare_Inr:
  "send_prepare lib cfg r = Inr ns \<Longrightarrow>
   mapR (\<lambda>x. normalize lib cfg x None) (recipient_list r) = Inr ns \<and> ns \<noteq> [] \<and>
   (has_key r \<longrightarrow> length ns = 1)"
proof -
  assume a: "send_prepare lib cfg r = Inr ns"
  then have m: "mapR (\<lambda>x. normalize lib cfg x None) (recipient_list r) = Inr ns"
    and ne: "recipient_list r \<noteq> []" and k: "\<not> (has_key r \<and> length ns > 1)"
    by (auto simp: send_prepare_def Let_def split: if_splits sum.splits exn.splits)
  moreover have "ns \<noteq> []" using mapR_length [OF m] ne by auto
  ultimately show ?thesis by (cases ns) auto
qed

lemma send_prepare_Inl:
  "send_prepare lib cfg r = Inl e \<Longrightarrow> \<exists>msg. e = HTTPException 422 msg"
  by (auto simp: send_prepare_def Let_def split: if_splits sum.splits exn.splits
      dest!: mapR_Inl normalize_Inl)

lemma route_row_Inr:
  "route_row lib re_search cfg svc p = Inr m \<Longrightarrow>
   \<exists>t. m = (snd p)\<lparr>notification_topic := t, transport := (if t \<noteq> None \<and> t \<noteq> Some [] then Ntfy else Sms)\<rparr>"
  by (auto simp: route_row_def res_simps)

lemma created_rows_Inr:
  assumes "created_rows lib re_search cfg r svc fresh ns = Inr ms"
  shows "length ms = length ns"
    and "m \<in> set ms \<Longrightarrow>
         status m = QUEUED \<and> direction m = OUTBOUND \<and> service m = svc \<and> body m = sr_body r \<and>
         idempotency_key m = sr_key r \<and> attempts m = 0 \<and> provider_message_id m = None \<and>
         sent_at m = None \<and> transport m \<noteq> SmsFallback \<and> notification_priority m = sr_priority r \<and>
         next_attempt_at m \<noteq> None \<and> error m = None"
    and "map to_number ms = map Some ns"
    and "map mid ms = map (\<lambda>i. seed_id (fresh i)) [0..<length ns]"
proof -
  let ?ps = "map (\<lambda>(i, number). (number, queued_row r svc (fresh i) number)) (enumerate 0 ns)"
  have all: "list_all2 (\<lambda>p m. route_row lib re_search cfg svc p = Inr m) ?ps ms"
    using assms by (simp add: created_rows_def mapR_Inr_iff)
  have row: "\<exists>t. m = (snd p)\<lparr>notification_topic := t, transport := (if t \<noteq> None \<and> t \<noteq> Some [] then Ntfy else Sms)\<rparr>"
    if "route_row lib re_search cfg svc p = Inr m" for p m
    using that by (rule route_row_Inr)
  show len: "length ms = length ns" using list_all2_lengthD [OF all] by simp
  show "status m = QUEUED \<and> direction m = OUTBOUND \<and> service m = svc \<and> body m = sr_body r \<and>
         idempotency_key m = sr_key r \<and> attempts m = 0 \<and> provider_message_id m = None \<and>
         sent_at m = None \<and> transport m \<noteq> SmsFallback \<and> notification_priority m = sr_priority r \<and>
         next_attempt_at m \<noteq> None \<and> error m = None" if "m \<in> set ms"
  proof -
    from that obtain i where "i < length ms" "m = ms ! i" by (auto simp: in_set_conv_nth)
    then have "route_row lib re_search cfg svc (?ps ! i) = Inr m" "i < length ns"
      using list_all2_nthD2 [OF all] len by auto
    then show ?thesis
      by (auto dest!: row simp: queued_row_def new_message_def nth_enumerate_eq split: if_splits)
  qed
  have nth: "to_number (ms ! i) = Some (ns ! i) \<and> mid (ms ! i) = seed_id (fresh i)"
    if "i < length ns" for i
  proof -
    have "route_row lib re_search cfg svc (?ps ! i) = Inr (ms ! i)"
      using list_all2_nthD2 [OF all] len that by auto
    with that show ?thesis
      by (auto dest!: row simp: queued_row_def new_message_def nth_enumerate_eq)
  qed
  show "map to_number ms = map Some ns" by (rule nth_equalityI) (auto simp: len nth)
  show "map mid ms = map (\<lambda>i. seed_id (fresh i)) [0..<length ns]"
    by (rule nth_equalityI) (auto simp: len nth)
qed

text \<open>The four ways a request can end.\<close>

lemma send_message_cases:
  assumes "send_message lib re_search cfg r svc fresh db0 db1 db2 = (res, db')"
  obtains (failed) e where "res = Inl e" "db' = db1"
    | (replay0) m where "res = Inr [message_out_of m]" "db' = db1" "key_lookup r svc db0 = Inr (Some m)"
    | (queued) ns ms where "res = Inr (map message_out_of ms)" "send_prepare lib cfg r = Inr ns"
        "key_lookup r svc db0 = Inr None"
        "created_rows lib re_search cfg r svc fresh ns = Inr ms" "insert_messages ms db1 = Inr db'"
    | (replay2) m where "res = Inr [message_out_of m]" "db' = db1" "key_lookup r svc db2 = Inr (Some m)"
  using assms unfolding send_message_def by (auto split: sum.splits option.splits)

lemma key_lookup_ok:
  assumes "messages_ok (messages db)" and "sr_key r = Some k" and "k \<noteq> []"
    and "m \<in> set (messages db)" and "service m = svc" and "idempotency_key m = Some k"
  shows "key_lookup r svc db = Inr (Some m)"
proof -
  let ?hits = "filter (\<lambda>m. service m = svc \<and> idempotency_key m = Some k) (messages db)"
  have le: "length ?hits \<le> 1"
    using assms(1) by (intro idem_lookup_le1) (simp add: messages_ok_def)
  moreover have "m \<in> set ?hits" using assms by simp
  ultimately have "?hits = [m]" by (cases ?hits) auto
  then show ?thesis
    using assms(2,3) by (simp add: key_lookup_def existing_by_idempotency_key_def)
qed

lemma key_lookup_SomeD:
  assumes "key_lookup r svc db = Inr (Some m)"
  shows "m \<in> set (messages db) \<and> service m = svc \<and> idempotency_key m = sr_key r \<and> has_key r"
proof -
  obtain k where k: "sr_key r = Some k" "k \<noteq> []"
    and look: "scalar_one_or_none
      (filter (\<lambda>m. service m = svc \<and> idempotency_key m = Some k) (messages db)) = Inr (Some m)"
    using assms by (auto simp: key_lookup_def existing_by_idempotency_key_def split: option.splits if_splits)
  have "m \<in> set (filter (\<lambda>m. service m = svc \<and> idempotency_key m = Some k) (messages db))"
    using look by (cases rule: scalar_one_or_none.cases
      [of "filter (\<lambda>m. service m = svc \<and> idempotency_key m = Some k) (messages db)"]) auto
  with k show ?thesis by (simp add: has_key_def)
qed

subsection \<open>Properties\<close>

lemma key_lookup_None:
  assumes "key_lookup r svc db = Inr None" and "has_key r" and "m \<in> set (messages db)"
  shows "\<not> (service m = svc \<and> idempotency_key m = sr_key r)"
proof
  assume m: "service m = svc \<and> idempotency_key m = sr_key r"
  obtain k where k: "sr_key r = Some k" "k \<noteq> []" using assms(2) by (cases "sr_key r") (auto simp: has_key_def)
  let ?hits = "filter (\<lambda>m. service m = svc \<and> idempotency_key m = Some k) (messages db)"
  have "scalar_one_or_none ?hits = Inr None"
    using assms(1) k by (simp add: key_lookup_def existing_by_idempotency_key_def)
  then have "?hits = []" by (cases ?hits rule: scalar_one_or_none.cases) auto
  with assms(3) m k show False by (auto simp: filter_empty_conv)
qed

lemma created_rows_exist:
  assumes "\<forall>n \<in> set ns. \<exists>t. topic_for lib re_search cfg svc n (sr_body r) = Inr t"
  shows "\<exists>ms. created_rows lib re_search cfg r svc fresh ns = Inr ms \<and>
    list_all2 (\<lambda>n m. topic_for lib re_search cfg svc n (sr_body r) = Inr (notification_topic m) \<and>
      transport m = (if notification_topic m = None then Sms else Ntfy)) ns ms"
proof -
  define tp where "tp n = (case topic_for lib re_search cfg svc n (sr_body r) of Inr t \<Rightarrow> t | Inl _ \<Rightarrow> None)" for n
  define row where "row p = (snd p)\<lparr>notification_topic := tp (fst p), transport := (if tp (fst p) = None then Sms else Ntfy)\<rparr>"
    for p :: "string \<times> message"
  have tp: "topic_for lib re_search cfg svc n (sr_body r) = Inr (tp n)" if "n \<in> set ns" for n
    using assms that by (force simp: tp_def)
  have ne: "tp n \<noteq> Some []" if "n \<in> set ns" for n
    using tp [OF that] topic_for_nonempty by metis
  let ?ps = "map (\<lambda>(i, n). (n, queued_row r svc (fresh i) n)) (enumerate 0 ns)"
  have "route_row lib re_search cfg svc p = Inr (row p)" if "p \<in> set ?ps" for p
  proof -
    from that obtain i n where p: "p = (n, queued_row r svc (fresh i) n)" "n \<in> set ns"
      by (auto simp: in_set_enumerate_eq)
    have "body (snd p) = sr_body r" by (simp add: p queued_row_def)
    then show ?thesis using tp [OF p(2)] ne [OF p(2)] by (simp add: route_row_def row_def p(1))
  qed
  then have cr: "created_rows lib re_search cfg r svc fresh ns = Inr (map row ?ps)"
    unfolding created_rows_def by (rule mapR_total)
  have "list_all2 (\<lambda>n m. topic_for lib re_search cfg svc n (sr_body r) = Inr (notification_topic m) \<and>
      transport m = (if notification_topic m = None then Sms else Ntfy)) ns (map row ?ps)"
    by (rule list_all2_all_nthI) (simp_all add: nth_enumerate_eq row_def tp)
  with cr show ?thesis by blast
qed

text \<open>New rows with fresh ids, and at most one of them under a key nobody has used, fit the table.\<close>

lemma created_rows_fit:
  assumes cr: "created_rows lib re_search cfg r svc fresh ns = Inr ms" and db: "db_ok db"
    and key: "key_lookup r svc db = Inr None" "sr_key r \<noteq> Some []" "has_key r \<longrightarrow> length ns = 1"
    and ids: "inj (\<lambda>i. seed_id (fresh i))" "range (\<lambda>i. seed_id (fresh i)) \<inter> set (map mid (messages db)) = {}"
  shows "messages_ok (messages db @ ms)"
proof -
  have "distinct (map mid ms) \<and> set (map mid ms) \<subseteq> range (\<lambda>i. seed_id (fresh i))"
    unfolding created_rows_Inr(4) [OF cr] using ids(1) by (auto simp: distinct_map inj_on_def)
  moreover from this have "set (map mid (messages db)) \<inter> set (map mid ms) = {}"
    using ids(2) by blast
  ultimately have mids: "distinct (map mid (messages db @ ms))"
    using db_ok_distinct [OF db] by simp
  have "distinct (idem_keys (messages db @ ms))"
  proof (cases "has_key r")
    case True
    then obtain m where "ms = [m]"
      using key(3) created_rows_Inr(1) [OF cr] by (auto simp: length_Suc_conv)
    moreover from this have m: "service m = svc" "idempotency_key m = sr_key r"
      using created_rows_Inr(2) [OF cr] by auto
    moreover have "(svc, sr_key r) \<notin> set (idem_keys (messages db))"
      using key_lookup_None [OF key(1) True] by (auto simp: idem_keys_def)
    ultimately show ?thesis using db by (auto simp: idem_keys_def db_ok_def messages_ok_def)
  next
    case False
    then have "sr_key r = None" using key(2) by (simp add: has_key_def)
    then have "idem_keys ms = []"
      using created_rows_Inr(2) [OF cr] by (auto simp: idem_keys_def filter_empty_conv)
    then show ?thesis using db by (simp add: db_ok_def messages_ok_def)
  qed
  with mids show ?thesis by (simp add: messages_ok_def)
qed


definition sample_request :: send_request where
  "sample_request = \<lparr>sr_to = Many [''+1555'', ''+1666''], sr_body = ''hi'', sr_priority = 3, sr_key = None\<rparr>"

definition sample_seed :: "nat \<Rightarrow> row_seed" where
  "sample_seed i = \<lparr>seed_id = replicate i CHR ''i'', seed_due = 0, seed_created = 0, seed_updated = 0\<rparr>"

lemma inj_sample_seed: "inj (\<lambda>i. seed_id (sample_seed i))"
  by (auto simp: inj_def sample_seed_def)

lemma sample_prepare: "send_prepare sample_lib sample_config sample_request = Inr [''+1555'', ''+1666'']"
  by code_simp

lemma sample_topics:
  "topic_for sample_lib re_search sample_config ''ops'' ''+1555'' t = Inr (Some ''oncall'')"
  "topic_for sample_lib re_search sample_config ''ops'' ''+1666'' t = Inr None"
proof -
  have "normalize sample_lib sample_config ''+1555'' None = Inr ''+1555''" "valid_topic ''oncall''"
    by code_simp+
  then show "topic_for sample_lib re_search sample_config ''ops'' ''+1555'' t = Inr (Some ''oncall'')"
    "topic_for sample_lib re_search sample_config ''ops'' ''+1666'' t = Inr None"
    by (simp_all add: topic_for_def sample_config_def normalize_value_def checked_topic_def jget_def jget_or_def)
qed


text \<open>
  C17. Repeating a request under its idempotency key sends nothing twice: after a request
  with a key was accepted, any request of the same service under the same key (even with
  another body) is answered with the very message stored first and leaves the tables as they
  are.
\<close>

theorem idempotent_replay:
  assumes "send_message lib re_search cfg r svc fresh db db db = (Inr outs, db')" and "db_ok db" and "has_key r"
    and "sr_key r' = sr_key r" and "send_prepare lib' cfg' r' = Inr ns'"
  shows "length outs = 1 \<and> send_message lib' re_search' cfg' r' svc fresh' db' db' db' = (Inr outs, db')"
proof -
  have "db_ok db' \<and> (\<exists>m \<in> set (messages db'). service m = svc \<and> idempotency_key m = sr_key r \<and> outs = [message_out_of m])"
    using assms(1)
  proof (rule send_message_cases)
    fix ns ms
    assume res: "(Inr outs :: message_out list res) = Inr (map message_out_of ms)"
      and pr: "send_prepare lib cfg r = Inr ns"
      and cr: "created_rows lib re_search cfg r svc fresh ns = Inr ms" and ins: "insert_messages ms db = Inr db'"
    obtain m where "ms = [m]"
      using send_prepare_Inr [OF pr] assms(3) created_rows_Inr(1) [OF cr] by (auto simp: length_Suc_conv)
    then show ?thesis
      using insert_messages_ok [OF ins assms(2)] created_rows_Inr(2) [OF cr, of m] res by auto
  qed (use assms(2) in \<open>auto dest: key_lookup_SomeD\<close>)
  then obtain m where db': "db_ok db'" and m: "m \<in> set (messages db')" "service m = svc"
    "idempotency_key m = sr_key r" "outs = [message_out_of m]" by blast
  obtain k where k: "sr_key r = Some k" "k \<noteq> []" using assms(3) by (cases "sr_key r") (auto simp: has_key_def)
  have "key_lookup r' svc db' = Inr (Some m)"
    using key_lookup_ok [of db' r' k m svc] db' m k assms(4) by (simp add: db_ok_def)
  then show ?thesis using assms(5) m(4) by (simp add: send_message_def)
qed

definition keyed_request :: send_request where
  "keyed_request = \<lparr>sr_to = One ''+1555'', sr_body = ''hi'', sr_priority = 3, sr_key = Some ''k''\<rparr>"

lemma keyed_prepare: "send_prepare sample_lib sample_config (keyed_request\<lparr>sr_body := b\<rparr>) = Inr [''+1555'']"
proof -
  have "normalize sample_lib sample_config ''+1555'' None = Inr ''+1555''" by code_simp
  then show ?thesis by (simp add: send_prepare_def recipient_list_def keyed_request_def Let_def)
qed

lemma sample_send:
  "\<exists>m db'. send_message sample_lib (\<lambda>_ _. Inr True) sample_config keyed_request ''ops'' sample_seed
     \<lparr>messages = [], deliveries = []\<rparr> \<lparr>messages = [], deliveries = []\<rparr> \<lparr>messages = [], deliveries = []\<rparr> =
     (Inr [message_out_of m], db')"
proof -
  have "send_prepare sample_lib sample_config keyed_request = Inr [''+1555'']"
    using keyed_prepare [of "''hi''"] by (simp add: keyed_request_def)
  moreover have "messages_ok [m]" for m by (simp add: messages_ok_def idem_keys_def)
  moreover have "key_lookup keyed_request ''ops'' \<lparr>messages = [], deliveries = []\<rparr> = Inr None"
    by (simp add: key_lookup_def keyed_request_def existing_by_idempotency_key_def)
  ultimately show ?thesis
    by (auto simp: send_message_def created_rows_def route_row_def sample_topics insert_messages_def)
qed

theorem idempotent_replay_witness:
  "\<exists>outs db'. send_message sample_lib (\<lambda>_ _. Inr True) sample_config keyed_request ''ops'' sample_seed
       \<lparr>messages = [], deliveries = []\<rparr> \<lparr>messages = [], deliveries = []\<rparr> \<lparr>messages = [], deliveries = []\<rparr> = (Inr outs, db') \<and>
     send_message sample_lib (\<lambda>_ _. Inr True) sample_config (keyed_request\<lparr>sr_body := ''other''\<rparr>) ''ops'' sample_seed
       db' db' db' = (Inr outs, db')"
proof -
  obtain m db' where s: "send_message sample_lib (\<lambda>_ _. Inr True) sample_config keyed_request ''ops'' sample_seed
     \<lparr>messages = [], deliveries = []\<rparr> \<lparr>messages = [], deliveries = []\<rparr> \<lparr>messages = [], deliveries = []\<rparr> =
     (Inr [message_out_of m], db')"
    using sample_send by blast
  have "db_ok \<lparr>messages = [], deliveries = []\<rparr>" "has_key keyed_request"
    by (simp_all add: db_ok_defs has_key_def keyed_request_def)
  with idempotent_replay [OF s, of "keyed_request\<lparr>sr_body := ''other''\<rparr>" sample_lib sample_config "[''+1555'']"]
    keyed_prepare s show ?thesis by auto
qed

text \<open>
  C18. Of two requests that race on one key the loser gets the winner's message: when its
  first lookup found nothing but the winner's row is there at its commit, the commit fails on
  the unique constraint, and the answer is the winner's row, with the tables unchanged.
\<close>

theorem race_loser_gets_winner:
  assumes "db_ok db" and "w \<in> set (messages db)" and "service w = svc" and "idempotency_key w = sr_key r"
    and "has_key r" and "key_lookup r svc db0 = Inr None" and "send_prepare lib cfg r = Inr ns"
    and "created_rows lib re_search cfg r svc fresh ns = Inr ms"
  shows "send_message lib re_search cfg r svc fresh db0 db db = (Inr [message_out_of w], db)"
proof -
  obtain k where k: "sr_key r = Some k" "k \<noteq> []" using assms(5) by (cases "sr_key r") (auto simp: has_key_def)
  have "ns \<noteq> []" using send_prepare_Inr [OF assms(7)] by blast
  then obtain m where m: "m \<in> set ms"
    using created_rows_Inr(1) [OF assms(8)] by (cases ms) auto
  then have "(svc, sr_key r) \<in> set (idem_keys ms)" "(svc, sr_key r) \<in> set (idem_keys (messages db))"
    using created_rows_Inr(2) [OF assms(8)] assms(2-4) k by (force simp: idem_keys_def)+
  then have "\<not> messages_ok (messages db @ ms)" by (auto simp: messages_ok_def)
  moreover have "key_lookup r svc db = Inr (Some w)"
    using key_lookup_ok [of db r k w svc] assms(1-4) k by (simp add: db_ok_def)
  ultimately show ?thesis
    using assms(6-8) by (simp add: send_message_def insert_messages_def)
qed

theorem race_loser_gets_winner_witness:
  "send_message sample_lib (\<lambda>_ _. Inr True) sample_config keyed_request ''ops'' sample_seed
     \<lparr>messages = [], deliveries = []\<rparr>
     \<lparr>messages = [sample_message\<lparr>idempotency_key := Some ''k''\<rparr>], deliveries = []\<rparr>
     \<lparr>messages = [sample_message\<lparr>idempotency_key := Some ''k''\<rparr>], deliveries = []\<rparr> =
   (Inr [message_out_of (sample_message\<lparr>idempotency_key := Some ''k''\<rparr>)],
    \<lparr>messages = [sample_message\<lparr>idempotency_key := Some ''k''\<rparr>], deliveries = []\<rparr>)"
proof -
  have p: "send_prepare sample_lib sample_config keyed_request = Inr [''+1555'']"
    using keyed_prepare [of "''hi''"] by (simp add: keyed_request_def)
  obtain ms where "created_rows sample_lib (\<lambda>_ _. Inr True) sample_config keyed_request ''ops'' sample_seed [''+1555''] = Inr ms"
    using sample_topics by (simp add: created_rows_def route_row_def)
  then show ?thesis
    by (intro race_loser_gets_winner [OF _ _ _ _ _ _ p])
       (simp_all add: db_ok_defs has_key_def keyed_request_def
         sample_row key_lookup_def existing_by_idempotency_key_def)
qed

text \<open>
  C19. Sending is all or nothing: whatever the request and whatever happened in between, an
  exception leaves the tables as the commit found them, a success keeps them consistent and
  only appends message rows, and a request whose recipients are refused is answered 422
  before the database is asked.
\<close>

theorem send_message_atomic:
  assumes "send_message lib re_search cfg r svc fresh db0 db1 db2 = (res, db')" and "db_ok db1"
  shows "db_ok db' \<and> deliveries db' = deliveries db1 \<and> (\<exists>ms. messages db' = messages db1 @ ms) \<and>
    (\<forall>e. res = Inl e \<longrightarrow> db' = db1) \<and>
    (\<forall>e. send_prepare lib cfg r = Inl e \<longrightarrow> res = Inl e \<and> (\<exists>msg. e = HTTPException 422 msg))"
proof -
  have "db' = db1 \<or> db_ok db' \<and> deliveries db' = deliveries db1 \<and> (\<exists>ms. messages db' = messages db1 @ ms) \<and> (\<nexists>e. res = Inl e)"
    using assms(1) by (rule send_message_cases) (use insert_messages_ok assms(2) in auto)
  moreover have "res = Inl e" if "send_prepare lib cfg r = Inl e" for e
    using assms(1) that by (simp add: send_message_def)
  ultimately show ?thesis using assms(2) send_prepare_Inl by auto
qed

theorem send_message_atomic_witness:
  "snd (send_message sample_lib (\<lambda>_ _. Inr True) sample_config (keyed_request\<lparr>sr_to := One []\<rparr>) ''ops'' sample_seed
     \<lparr>messages = [], deliveries = []\<rparr> \<lparr>messages = [sample_message], deliveries = []\<rparr> \<lparr>messages = [], deliveries = []\<rparr>) =
   \<lparr>messages = [sample_message], deliveries = []\<rparr>"
proof -
  have p: "send_prepare sample_lib sample_config (keyed_request\<lparr>sr_to := One []\<rparr>) =
      Inl (HTTPException 422 ''phone number is empty'')"
    by (simp add: send_prepare_def recipient_list_def keyed_request_def normalize_def)
  then have "fst (send_message sample_lib (\<lambda>_ _. Inr True) sample_config (keyed_request\<lparr>sr_to := One []\<rparr>) ''ops'' sample_seed
     \<lparr>messages = [], deliveries = []\<rparr> \<lparr>messages = [sample_message], deliveries = []\<rparr> \<lparr>messages = [], deliveries = []\<rparr>) =
     Inl (HTTPException 422 ''phone number is empty'')"
    by (simp add: send_message_def)
  moreover have "db_ok \<lparr>messages = [sample_message], deliveries = []\<rparr>"
    by (simp add: db_ok_defs sample_row)
  ultimately show ?thesis
    using send_message_atomic [OF surjective_pairing] by blast
qed

text \<open>Pages of a list, laid end to end, are the list.\<close>

lemma concat_pages: "concat (map (\<lambda>j. take n (drop (j * n) xs)) [0..<k]) = take (k * n) xs"
proof (induction k)
  case (Suc k)
  have "take (Suc k * n) xs = take (k * n) xs @ take n (drop (k * n) xs)"
    by (metis add.commute mult_Suc take_add)
  with Suc show ?case by simp
qed simp

lemma list_messages_page:
  assumes "1 \<le> limit" "limit \<le> 500" "0 \<le> off"
  shows "list_messages db db svc dir st limit off =
    Inr (map message_out_of (take (nat limit) (drop (nat off)
           (rev (sort_key created_at (filter (list_filter svc dir st) (messages db)))))),
         length (filter (list_filter svc dir st) (messages db)))"
  using assms by (simp add: list_messages_def Let_def)

text \<open>
  C36. Paging loses and repeats nothing: the pages at multiples of any admissible limit, laid
  end to end until the reported total is covered, are exactly the caller's matching messages,
  each once, newest first, and every page reports their true number.
\<close>

theorem pages_cover:
  assumes "1 \<le> limit" "limit \<le> 500"
    and "cnt = length (filter (list_filter svc dir st) (messages db))" and "int cnt \<le> int k * limit"
  shows "\<exists>page. (\<forall>j < k. list_messages db db svc dir st limit (int j * limit) = Inr (page j, cnt)) \<and>
    mset (concat (map page [0..<k])) = mset (map message_out_of (filter (list_filter svc dir st) (messages db))) \<and>
    sorted_wrt (\<lambda>a b. o_created_at b \<le> o_created_at a) (concat (map page [0..<k]))"
proof -
  define found where "found = rev (sort_key created_at (filter (list_filter svc dir st) (messages db)))"
  define page where "page j = map message_out_of (take (nat limit) (drop (j * nat limit) found))" for j
  have "list_messages db db svc dir st limit (int j * limit) = Inr (page j, cnt)" for j
    using list_messages_page [of limit "int j * limit" db svc dir st] assms(1-3)
    by (simp add: page_def found_def nat_mult_distrib)
  moreover have "concat (map page [0..<k]) = map message_out_of found"
  proof -
    have "int cnt \<le> int (k * nat limit)" using assms(1,4) by simp
    then have "length found \<le> k * nat limit" using assms(3) by (simp only: of_nat_le_iff) (simp add: found_def)
    then have "concat (map (\<lambda>j. take (nat limit) (drop (j * nat limit) found)) [0..<k]) = found"
      by (simp add: concat_pages)
    then have "map message_out_of found =
        concat (map (map message_out_of) (map (\<lambda>j. take (nat limit) (drop (j * nat limit) found)) [0..<k]))"
      by (metis map_concat)
    then show ?thesis by (simp add: page_def [abs_def] comp_def)
  qed
  moreover have "mset found = mset (filter (list_filter svc dir st) (messages db))" by (simp add: found_def)
  moreover have "sorted_wrt (\<lambda>a b. o_created_at b \<le> o_created_at a) (map message_out_of found)"
    using sorted_sort_key [of created_at "filter (list_filter svc dir st) (messages db)"]
    by (simp add: found_def sorted_wrt_map sorted_wrt_rev message_out_of_def)
  ultimately show ?thesis by (intro exI [of _ page]) simp
qed

theorem pages_cover_witness:
  "\<exists>page. (\<forall>j. j < (3::nat) \<longrightarrow> list_messages \<lparr>messages = replicate 3 sample_message, deliveries = []\<rparr>
       \<lparr>messages = replicate 3 sample_message, deliveries = []\<rparr> ''ops'' None None 1 (int j * 1) = Inr (page j, 3)) \<and>
     mset (concat (map page [0..<3])) = mset (replicate 3 (message_out_of sample_message))"
proof -
  have f: "filter (list_filter ''ops'' None None) (replicate 3 sample_message) = replicate 3 sample_message"
    by (simp add: list_filter_def sample_row)
  show ?thesis
    using pages_cover [of 1 3 "''ops''" None None "\<lparr>messages = replicate 3 sample_message, deliveries = []\<rparr>" 3]
    unfolding database.select_convs f by (simp only: length_replicate map_replicate) auto
qed

definition readable :: "string \<Rightarrow> message \<Rightarrow> bool" where
  "readable svc m \<longleftrightarrow> service m = svc \<or> direction m = INBOUND"

lemma get_message_iff:
  assumes "db_ok db"
  shows "get_message db svc i = Inr out \<longleftrightarrow>
    (\<exists>m \<in> set (messages db). mid m = i \<and> out = message_out_of m \<and> readable svc m)"
proof (cases "get_message_row i db")
  case None
  then have "i \<notin> mid ` set (messages db)" by (simp add: get_message_row_def msg.find_row_None_iff)
  with None show ?thesis by (auto simp: get_message_def)
next
  case (Some m)
  then have m: "m \<in> set (messages db)" "mid m = i"
    using msg.find_SomeD by (auto simp: get_message_row_def)
  then have "m' \<in> set (messages db) \<and> mid m' = i \<longleftrightarrow> m' = m" for m'
    using db_ok_distinct [OF assms] by (metis distinct_map inj_onD)
  then have "(\<exists>m' \<in> set (messages db). mid m' = i \<and> P m') \<longleftrightarrow> P m" for P by metis
  moreover have "get_message db svc i = Inr out \<longleftrightarrow> out = message_out_of m \<and> readable svc m"
    using Some by (cases "direction m") (auto simp: get_message_def readable_def)
  ultimately show ?thesis by simp
qed

lemma listed_iff:
  "(\<exists>limit off outs n. list_messages db db svc None None limit off = Inr (outs, n) \<and> out \<in> set outs) \<longleftrightarrow>
   out \<in> message_out_of ` {m \<in> set (messages db). readable svc m}" (is "?listed \<longleftrightarrow> _")
proof -
  let ?found = "rev (sort_key created_at (filter (list_filter svc None None) (messages db)))"
  have "?listed \<longleftrightarrow> out \<in> message_out_of ` set ?found"
  proof
    assume ?listed
    then obtain n k where "out \<in> message_out_of ` set (take n (drop k ?found))"
      by (auto simp: list_messages_def Let_def split: if_splits)
    moreover have "set (take n (drop k ?found)) \<subseteq> set ?found"
      by (meson order_trans set_drop_subset set_take_subset)
    ultimately show "out \<in> message_out_of ` set ?found" by blast
  next
    assume "out \<in> message_out_of ` set ?found"
    then obtain j where j: "j < length ?found" "out = message_out_of (?found ! j)"
      by (metis (no_types, lifting) imageE in_set_conv_nth)
    have "take (nat 1) (drop (nat (int j)) ?found) = [?found ! j]"
      using j(1) by (simp add: take_Suc_conv_app_nth hd_drop_conv_nth take_Suc)
    then have "list_messages db db svc None None 1 (int j) = Inr ([out], length (filter (list_filter svc None None) (messages db)))"
      using list_messages_page [of 1 "int j" db svc None None] j(2) by simp
    then show ?listed by (meson list.set_intros(1))
  qed
  moreover have "set ?found = {m \<in> set (messages db). readable svc m}"
    by (auto simp: list_filter_def readable_def)
  ultimately show ?thesis by simp
qed

text \<open>
  A key reads its own service's messages and the inbound ones, and no others: a message
  is returned for an id exactly when it exists and is one of these, and what the list can
  ever show is exactly what can be read one by one.
\<close>

lemma reads_are_scoped:
  assumes "db_ok db"
  shows "(get_message db svc i = Inr out \<longleftrightarrow>
      (\<exists>m \<in> set (messages db). mid m = i \<and> out = message_out_of m \<and> (service m = svc \<or> direction m = INBOUND))) \<and>
    ((\<exists>limit off outs n. list_messages db db svc None None limit off = Inr (outs, n) \<and> out \<in> set outs) \<longleftrightarrow>
      (\<exists>i. get_message db svc i = Inr out))"
  unfolding listed_iff get_message_iff [OF assms] readable_def by blast

text \<open>
  An empty key is no key to the handler but is stored all the same: a second message under it
  violates the constraint, and the exception reaches the caller.
\<close>

lemma empty_key_clashes:
  assumes "m \<in> set (messages db1)" "service m = svc" "idempotency_key m = Some []" "sr_key r = Some []"
    and "send_prepare lib cfg r = Inr ns" "created_rows lib re_search cfg r svc fresh ns = Inr ms"
  shows "send_message lib re_search cfg r svc fresh db0 db1 db2 = (Inl (IntegrityError ''messages''), db1)"
proof -
  have "ns \<noteq> []" using send_prepare_Inr [OF assms(5)] by blast
  then obtain m' where "m' \<in> set ms" using created_rows_Inr(1) [OF assms(6)] by (cases ms) auto
  then have "(svc, Some []) \<in> set (idem_keys ms)" "(svc, Some []) \<in> set (idem_keys (messages db1))"
    using created_rows_Inr(2) [OF assms(6)] assms(1-4) by (force simp: idem_keys_def)+
  then have "\<not> messages_ok (messages db1 @ ms)" by (auto simp: messages_ok_def)
  then show ?thesis using assms(4-6) by (simp add: send_message_def key_lookup_def insert_messages_def)
qed

end
