(* ===== verification/Worker.thy ===== *)
theory Worker
  imports Inbound Outbound Providers Retry
begin

section \<open>The background loops (worker.py)\<close>

text \<open>
  One definition per piece of the four loops: the claim queries, what an answer of ntfy or
  of the provider does to the message held, and one whole iteration of each loop. A piece
  that reads the tables and commits after an await takes the database it read (\<open>db0\<close>) and
  the one its commit meets (\<open>db1\<close>). Readings of the clock are arguments, one per call of
  the source; \<open>t\<close> gives the reading that stamps \<open>updated_at\<close> of each row of a flush.
\<close>

definition worker_backoff_seconds :: "int \<Rightarrow> int" where
  "worker_backoff_seconds n = min (30 * 2 ^ nat (max 0 (n - 1))) 900"

definition send_backoff :: "instant \<Rightarrow> int \<Rightarrow> instant" where
  "send_backoff now n = now + seconds (worker_backoff_seconds n)"

subsection \<open>The send loop\<close>

definition is_stuck :: "instant \<Rightarrow> message \<Rightarrow> bool" where
  "is_stuck cutoff m \<longleftrightarrow> status m = SENDING \<and> updated_at m < cutoff"

definition requeue_stuck ::
  "config \<Rightarrow> instant \<Rightarrow> (string \<Rightarrow> instant) \<Rightarrow> (string \<Rightarrow> instant) \<Rightarrow> database \<Rightarrow> database \<Rightarrow> database res"
where
  "requeue_stuck cfg now due t db0 db1 =
     (let cutoff = now - seconds (stuck_after_seconds cfg);
          stuck = filter (is_stuck cutoff) (messages db0)
      in if stuck = [] then Inr db1
         else commit_messages t
                (map (\<lambda>m. (m, m\<lparr>status := QUEUED, next_attempt_at := Some (due (mid m))\<rparr>)) stuck) db1)"

definition is_due :: "instant \<Rightarrow> message \<Rightarrow> bool" where
  "is_due now m \<longleftrightarrow>
     direction m = OUTBOUND \<and> status m = QUEUED \<and>
     (case next_attempt_at m of None \<Rightarrow> True | Some due \<Rightarrow> due \<le> now)"

definition claimed :: "instant \<Rightarrow> instant \<Rightarrow> message \<Rightarrow> message" where
  "claimed now t m = message_changes t m (m\<lparr>status := SENDING, updated_at := now\<rparr>) m"

definition claim_next ::
  "instant \<Rightarrow> (string \<Rightarrow> instant) \<Rightarrow> database \<Rightarrow> database \<Rightarrow> (message option \<times> database) res"
where
  "claim_next now t db0 db1 =
     rbind (scalar_one_or_none (take 1 (sort_key created_at (filter (is_due now) (messages db0)))))
       (\<lambda>found.
          case found of
            None \<Rightarrow> Inr (None, db1)
          | Some m \<Rightarrow>
              rbind (commit_messages t [(m, m\<lparr>status := SENDING, updated_at := now\<rparr>)] db1)
                (\<lambda>db'. Inr (Some (claimed now (t (mid m)) m), db')))"

text \<open>\<open>except (httpx.HTTPError, ValueError, TimeoutError)\<close> around the publish.\<close>

definition publish_error :: "exn \<Rightarrow> bool" where
  "publish_error e \<longleftrightarrow> is_HTTPError e \<or> is_ValueError e \<or> e = TimeoutError"

definition fall_back :: "message \<Rightarrow> message" where
  "fall_back m = m\<lparr>transport := SmsFallback, error := Some ''ntfy publish failed; SMS fallback selected''\<rparr>"

definition published :: "string \<Rightarrow> instant \<Rightarrow> message \<Rightarrow> message" where
  "published receipt now m =
     m\<lparr>status := PUBLISHED, provider_message_id := Some (''ntfy:'' @ receipt),
       sent_at := Some now, error := None\<rparr>"

definition bind_id :: "(json \<Rightarrow> string res) \<Rightarrow> json \<Rightarrow> string option res" where
  "bind_id bind_other v =
     (case v of
        JNull \<Rightarrow> Inr None
      | JStr s \<Rightarrow> Inr (Some s)
      | _ \<Rightarrow> rbind (bind_other v) (\<lambda>s. Inr (Some s)))"

definition sent :: "string option \<Rightarrow> instant \<Rightarrow> message \<Rightarrow> message" where
  "sent pid now m =
     m\<lparr>attempts := attempts m + 1, status := SENT, provider_message_id := pid,
       sent_at := Some now, error := None\<rparr>"

definition send_failure :: "config \<Rightarrow> instant \<Rightarrow> string \<Rightarrow> bool \<Rightarrow> message \<Rightarrow> message" where
  "send_failure cfg now msg permanent m =
     (let m1 = m\<lparr>attempts := attempts m + 1, error := Some (take 500 msg)\<rparr>;
          exhausted = (attempts m1 \<ge> max_attempts cfg)
      in if permanent \<or> exhausted then m1\<lparr>status := FAILED\<rparr>
         else m1\<lparr>status := QUEUED, next_attempt_at := Some (send_backoff now (attempts m1))\<rparr>)"

text \<open>What \<open>provider.send\<close> does to the message held; any other exception leaves the handler.\<close>

definition after_send :: "config \<Rightarrow> (json \<Rightarrow> string res) \<Rightarrow> json res \<Rightarrow> instant \<Rightarrow> message \<Rightarrow> message res" where
  "after_send cfg bind_other result now m =
     (case result of
        Inr pid \<Rightarrow> rbind (bind_id bind_other pid) (\<lambda>p. Inr (sent p now m))
      | Inl (ProviderError msg permanent) \<Rightarrow> Inr (send_failure cfg now msg permanent m)
      | Inl e \<Rightarrow> Inl e)"

datatype effect = CallNtfy string | CallSms string

record send_env =
  e_now_cutoff :: instant
  e_requeue_due :: "string \<Rightarrow> instant"
  e_requeue_flush :: "string \<Rightarrow> instant"
  e_now_claim :: instant
  e_claim_flush :: "string \<Rightarrow> instant"
  e_now_publish :: instant
  e_publish_flush :: "string \<Rightarrow> instant"
  e_now_send :: instant
  e_send_flush :: "string \<Rightarrow> instant"

definition send_sms ::
  "config \<Rightarrow> (json \<Rightarrow> string res) \<Rightarrow> (string \<Rightarrow> string \<Rightarrow> json res) \<Rightarrow> send_env \<Rightarrow> message \<Rightarrow> database \<Rightarrow>
   effect list \<times> database"
where
  "send_sms cfg bind_other send env m db =
     (case after_send cfg bind_other
             (send (case to_number m of None \<Rightarrow> [] | Some n \<Rightarrow> n) (body m)) (e_now_send env) m of
        Inl _ \<Rightarrow> ([CallSms (mid m)], db)
      | Inr m' \<Rightarrow>
          (case commit_messages (e_send_flush env) [(m, m')] db of
             Inl _ \<Rightarrow> ([CallSms (mid m)], db)
           | Inr db' \<Rightarrow> ([CallSms (mid m)], db')))"

text \<open>
  One iteration of \<open>send_loop\<close> with nothing interfering: the calls it makes to the outside
  and the database it leaves. An exception ends it with what was committed so far.
\<close>

definition send_iteration ::
  "config \<Rightarrow> (json \<Rightarrow> string res) \<Rightarrow> (message \<Rightarrow> string res) \<Rightarrow> (string \<Rightarrow> string \<Rightarrow> json res) \<Rightarrow>
   send_env \<Rightarrow> database \<Rightarrow> effect list \<times> database"
where
  "send_iteration cfg bind_other pub send env db =
     (case requeue_stuck cfg (e_now_cutoff env) (e_requeue_due env) (e_requeue_flush env) db db of
        Inl _ \<Rightarrow> ([], db)
      | Inr db1 \<Rightarrow>
         (case claim_next (e_now_claim env) (e_claim_flush env) db1 db1 of
            Inl _ \<Rightarrow> ([], db1)
          | Inr (None, db2) \<Rightarrow> ([], db2)
          | Inr (Some m, db2) \<Rightarrow>
              if transport m = Ntfy then
                (case pub m of
                   Inr receipt \<Rightarrow>
                     (case commit_messages (e_publish_flush env)
                             [(m, published receipt (e_now_publish env) m)] db2 of
                        Inl _ \<Rightarrow> ([CallNtfy (mid m)], db2)
                      | Inr db3 \<Rightarrow> ([CallNtfy (mid m)], db3))
                 | Inl e \<Rightarrow>
                     if \<not> publish_error e then ([CallNtfy (mid m)], db2)
                     else
                       (case commit_messages (e_publish_flush env) [(m, fall_back m)] db2 of
                          Inl _ \<Rightarrow> ([CallNtfy (mid m)], db2)
                        | Inr db3 \<Rightarrow>
                            let m' = message_changes (e_publish_flush env (mid m)) m (fall_back m) m
                            in case send_sms cfg bind_other send env m' db3 of
                                 (effects, db4) \<Rightarrow> (CallNtfy (mid m) # effects, db4)))
              else send_sms cfg bind_other send env m db2))"

subsection \<open>The status, fan-out and prune loops\<close>

definition is_polled :: "instant \<Rightarrow> message \<Rightarrow> bool" where
  "is_polled cutoff m \<longleftrightarrow>
     status m = SENT \<and> provider_message_id m \<noteq> None \<and>
     (case sent_at m of None \<Rightarrow> False | Some t \<Rightarrow> t > cutoff)"

definition polled_update :: "(string \<Rightarrow> message_status option res) \<Rightarrow> message \<Rightarrow> (message \<times> message) res" where
  "polled_update fetch m =
     rbind (fetch (case provider_message_id m of None \<Rightarrow> [] | Some p \<Rightarrow> p))
       (\<lambda>st. Inr (m, case st of
                        None \<Rightarrow> m
                      | Some s \<Rightarrow> if s \<noteq> status m then m\<lparr>status := s\<rparr> else m))"

definition status_iteration ::
  "(string \<Rightarrow> message_status option res) \<Rightarrow> instant \<Rightarrow> (string \<Rightarrow> instant) \<Rightarrow> database \<Rightarrow> database \<Rightarrow> database"
where
  "status_iteration fetch now t db0 db1 =
     (let cutoff = now - days 1;
          pending = filter (is_polled cutoff) (messages db0)
      in case rbind (mapR (polled_update fetch) pending) (\<lambda>ps. commit_messages t ps db1) of
           Inl _ \<Rightarrow> db1
         | Inr db' \<Rightarrow> db')"

definition delivery_due :: "instant \<Rightarrow> delivery \<Rightarrow> bool" where
  "delivery_due now d \<longleftrightarrow>
     d_status d = Pending \<and> (case d_next_attempt_at d of None \<Rightarrow> True | Some due \<Rightarrow> due \<le> now)"

definition fanout_one ::
  "(delivery \<Rightarrow> message \<Rightarrow> delivery res) \<Rightarrow> database \<Rightarrow> delivery \<Rightarrow> (delivery \<times> delivery) res"
where
  "fanout_one attempt db0 d =
     (case get_message_row (d_message_id d) db0 of
        None \<Rightarrow> Inr (d, d\<lparr>d_status := Cancelled\<rparr>)
      | Some m \<Rightarrow> rbind (attempt d m) (\<lambda>d'. Inr (d, d')))"

text \<open>\<open>attempt\<close> is \<open>deliver\<close> with its client and configuration.\<close>

definition fanout_iteration ::
  "(delivery \<Rightarrow> message \<Rightarrow> delivery res) \<Rightarrow> instant \<Rightarrow> (string \<Rightarrow> instant) \<Rightarrow> database \<Rightarrow> database \<Rightarrow> database"
where
  "fanout_iteration attempt now t db0 db1 =
     (let due = take 20 (sort_key d_created_at (filter (delivery_due now) (deliveries db0)))
      in if due = [] then db1
         else case rbind (mapR (fanout_one attempt db0) due) (\<lambda>ps. commit_deliveries t ps db1) of
                Inl _ \<Rightarrow> db1
              | Inr db' \<Rightarrow> db')"

definition is_prunable :: "instant \<Rightarrow> message \<Rightarrow> bool" where
  "is_prunable cutoff m \<longleftrightarrow> status m \<in> set TERMINAL_STATUSES \<and> created_at m < cutoff"

definition prune :: "config \<Rightarrow> instant \<Rightarrow> database \<Rightarrow> database" where
  "prune cfg now db = delete_messages (is_prunable (now - days (retention_days cfg))) db"

definition queue_depth :: "database \<Rightarrow> nat" where
  "queue_depth db = length (filter (\<lambda>m. status m = QUEUED) (messages db))"

subsection \<open>Contracts\<close>

lemma worker_backoff_doubling: "worker_backoff_seconds = doubling_backoff 900"
  by (simp add: worker_backoff_seconds_def doubling_backoff_def fun_eq_iff)

interpretation worker_policy: backoff_policy worker_backoff_seconds 900
  unfolding worker_backoff_doubling by (rule doubling_backoff_policy) simp

text \<open>One attempt that fails for a passing reason: claimed at one instant, refused at another.\<close>

definition failing_attempt :: "config \<Rightarrow> instant \<times> instant \<times> instant \<times> string \<Rightarrow> message \<Rightarrow> message" where
  "failing_attempt cfg e m =
     (case e of (t_claim, t_flush, now, msg) \<Rightarrow> send_failure cfg now msg False (claimed t_claim t_flush m))"

lemma claimed_simps [simp]:
  "mid (claimed now t m) = mid m" "status (claimed now t m) = SENDING"
  "transport (claimed now t m) = transport m" "attempts (claimed now t m) = attempts m"
  "provider_message_id (claimed now t m) = provider_message_id m"
  "direction (claimed now t m) = direction m" "body (claimed now t m) = body m"
  "to_number (claimed now t m) = to_number m" "service (claimed now t m) = service m"
  "idempotency_key (claimed now t m) = idempotency_key m"
  "created_at (claimed now t m) = created_at m"
  by (auto simp: claimed_def message_changes_def pick_def)

text \<open>What the outcomes of a publication keep of the message, and what they set.\<close>

lemma fall_back_row [row_simps]:
  "mid (fall_back m) = mid m" "service (fall_back m) = service m"
  "idempotency_key (fall_back m) = idempotency_key m" "updated_at (fall_back m) = updated_at m"
  "status (fall_back m) = status m" "transport (fall_back m) = SmsFallback"
  by (simp_all add: fall_back_def)

lemma published_row [row_simps]:
  "mid (published receipt now m) = mid m" "service (published receipt now m) = service m"
  "idempotency_key (published receipt now m) = idempotency_key m"
  "updated_at (published receipt now m) = updated_at m" "status (published receipt now m) = PUBLISHED"
  by (simp_all add: published_def)

lemma attempts_send_failure [simp]: "attempts (send_failure cfg now msg p m) = attempts m + 1"
  by (simp add: send_failure_def Let_def)

lemma status_send_failure:
  "status (send_failure cfg now msg p m) =
     (if p \<or> max_attempts cfg \<le> attempts m + 1 then FAILED else QUEUED)"
  by (simp add: send_failure_def Let_def)

interpretation outbound_retry:
  bounded_retry attempts "\<lambda>m. status m = QUEUED" "\<lambda>m. status m = FAILED"
    "failing_attempt cfg" "max_attempts cfg"
  for cfg
  by unfold_locales (auto simp: failing_attempt_def status_send_failure split: prod.splits)

subsection \<open>Properties\<close>

text \<open>What a commit of changed objects does to the set of rows, for objects that are rows.\<close>

lemma commit_one:
  assumes "db_ok db" and "m \<in> set (messages db)" and "mid m' = mid m"
  shows "\<exists>db'. commit_messages t [(m, m')] db = Inr db' \<and> deliveries db' = deliveries db \<and>
    set (messages db') = set (messages db) - {m} \<union> {if m' = m then m else message_changes (t (mid m)) m m' m}"
proof -
  have "{r \<in> set (messages db). mid r \<noteq> mid m} = set (messages db) - {m}"
    using db_ok_distinct [OF assms(1)] assms(2) by (auto dest: distinct_map_eqD)
  then show ?thesis
    using commit_owned [OF assms(1), of "[(m, m')]" t] assms(2) by (auto simp: msg.written_def)
qed

definition requeued :: "(string \<Rightarrow> instant) \<Rightarrow> (string \<Rightarrow> instant) \<Rightarrow> message \<Rightarrow> message" where
  "requeued due t m = m\<lparr>status := QUEUED, next_attempt_at := Some (due (mid m)), updated_at := t (mid m)\<rparr>"

lemma requeue_stuck_rows:
  assumes "db_ok db"
  shows "\<exists>db'. requeue_stuck cfg now due t db db = Inr db' \<and> deliveries db' = deliveries db \<and>
    set (messages db') =
      {m \<in> set (messages db). \<not> is_stuck (now - seconds (stuck_after_seconds cfg)) m} \<union>
      requeued due t ` {m \<in> set (messages db). is_stuck (now - seconds (stuck_after_seconds cfg)) m}"
proof -
  define stuck where "stuck = filter (is_stuck (now - seconds (stuck_after_seconds cfg))) (messages db)"
  define ps where "ps = map (\<lambda>m. (m, m\<lparr>status := QUEUED, next_attempt_at := Some (due (mid m))\<rparr>)) stuck"
  have set_stuck: "set stuck = {m \<in> set (messages db). is_stuck (now - seconds (stuck_after_seconds cfg)) m}"
    by (simp add: stuck_def)
  show ?thesis
  proof (cases "stuck = []")
    case True
    then have "{m \<in> set (messages db). is_stuck (now - seconds (stuck_after_seconds cfg)) m} = {}"
      using set_stuck by simp
    moreover have "requeue_stuck cfg now due t db db = Inr db"
      using True by (simp add: requeue_stuck_def stuck_def [symmetric])
    ultimately show ?thesis by auto
  next
    case False
    have dist: "distinct (map mid (messages db))" by (rule db_ok_distinct [OF assms])
    then have "distinct (map (\<lambda>p. mid (fst p)) ps)"
      by (simp add: ps_def stuck_def comp_def distinct_map_filter)
    moreover have "\<forall>p \<in> set ps. fst p \<in> set (messages db)" by (auto simp: ps_def stuck_def)
    ultimately obtain db' where db': "commit_messages t ps db = Inr db'" "deliveries db' = deliveries db"
      "set (messages db') = {m \<in> set (messages db). mid m \<notin> (\<lambda>p. mid (fst p)) ` set ps} \<union> msg.written t ` set ps"
      using commit_owned [OF assms] by blast
    have "(\<lambda>p. mid (fst p)) ` set ps = mid ` set stuck" by (auto simp: ps_def image_image)
    then have others: "{m \<in> set (messages db). mid m \<notin> (\<lambda>p. mid (fst p)) ` set ps} =
        {m \<in> set (messages db). \<not> is_stuck (now - seconds (stuck_after_seconds cfg)) m}"
      using dist set_stuck by (auto dest: distinct_map_eqD)
    have "msg.written t (m, m\<lparr>status := QUEUED, next_attempt_at := Some (due (mid m))\<rparr>) = requeued due t m"
      if "m \<in> set stuck" for m
    proof -
      have "status (m\<lparr>status := QUEUED, next_attempt_at := Some (due (mid m))\<rparr>) \<noteq> status m"
        using that set_stuck by (simp add: is_stuck_def)
      then have "m\<lparr>status := QUEUED, next_attempt_at := Some (due (mid m))\<rparr> \<noteq> m" by metis
      then show ?thesis by (simp add: msg.written_def message_changes_self requeued_def)
    qed
    then have "msg.written t ` set ps = requeued due t ` set stuck"
      by (force simp: ps_def image_image)
    moreover have "requeue_stuck cfg now due t db db = Inr db'"
      using False db'(1) by (simp add: requeue_stuck_def stuck_def [symmetric] ps_def)
    ultimately show ?thesis using db'(2,3) others set_stuck by auto
  qed
qed

lemma message_changes_claimed:
  "message_changes t m (m\<lparr>status := SENDING, updated_at := now\<rparr>) m = claimed now t m"
  by (simp add: claimed_def)

text \<open>
  The send loop takes the oldest due message: with one due in the queue, the claim
  succeeds, returns one that is due and no younger one before an older, and changes its row,
  and only its row, to sending; with none due it returns nothing and changes nothing.
\<close>

lemma claim_next_oldest:
  assumes "db_ok db"
  shows "(if \<exists>m. m \<in> set (messages db) \<and> is_due now m
    then \<exists>m db'. m \<in> set (messages db) \<and> is_due now m \<and> (\<nexists>o'. o' \<in> set (messages db) \<and> is_due now o' \<and> created_at o' < created_at m) \<and>
      claim_next now t db db = Inr (Some (claimed now (t (mid m)) m), db') \<and> deliveries db' = deliveries db \<and>
      set (messages db') = set (messages db) - {m} \<union> {claimed now (t (mid m)) m}
    else claim_next now t db db = Inr (None, db))"
proof (cases "filter (is_due now) (messages db) = []")
  case True
  then have "\<nexists>m. m \<in> set (messages db) \<and> is_due now m" by (auto simp: filter_empty_conv)
  moreover have "claim_next now t db db = Inr (None, db)" using True by (simp add: claim_next_def)
  ultimately show ?thesis by simp
next
  case False
  define xs where "xs = sort_key created_at (filter (is_due now) (messages db))"
  have "xs \<noteq> []" using False by (metis set_empty set_sort xs_def)
  then obtain m ys where xs: "xs = m # ys" by (cases xs) auto
  have m: "m \<in> set (messages db)" "is_due now m"
    and oldest: "\<nexists>o'. o' \<in> set (messages db) \<and> is_due now o' \<and> created_at o' < created_at m"
    using sort_key_hd_least [OF xs [unfolded xs_def]] by (auto simp: not_less [symmetric])
  let ?m = "m\<lparr>status := SENDING, updated_at := now\<rparr>"
  have "status ?m \<noteq> status m" using m(2) by (simp add: is_due_def)
  then have ne: "?m \<noteq> m" by metis
  obtain db' where db': "commit_messages t [(m, ?m)] db = Inr db'" "deliveries db' = deliveries db"
    "set (messages db') = set (messages db) - {m} \<union> {claimed now (t (mid m)) m}"
    using commit_one [OF assms m(1), of ?m t] ne by (auto simp: message_changes_claimed)
  then have "claim_next now t db db = Inr (Some (claimed now (t (mid m)) m), db')"
    by (simp add: claim_next_def xs_def [symmetric] xs)
  moreover have "\<exists>m. m \<in> set (messages db) \<and> is_due now m" using m by blast
  ultimately show ?thesis using m oldest db'(2,3) by auto
qed



text \<open>A run of attempts that fail for a passing reason, each after its claim.\<close>

definition fail_all :: "config \<Rightarrow> (json \<Rightarrow> string res) \<Rightarrow> (instant \<times> instant \<times> instant \<times> string) list \<Rightarrow> message \<Rightarrow> message res" where
  "fail_all cfg bind_other es m =
     foldl (\<lambda>r (t_claim, t_flush, now, msg).
              rbind r (\<lambda>m. after_send cfg bind_other (Inl (ProviderError msg False)) now (claimed t_claim t_flush m)))
       (Inr m) es"

lemma fail_all_fold: "fail_all cfg bind_other es m = Inr (fold (failing_attempt cfg) es m)"
proof (induction es rule: rev_induct)
  case (snoc e es)
  then show ?case by (cases e) (simp add: fail_all_def after_send_def failing_attempt_def)
qed (simp add: fail_all_def)

text \<open>
  A message that keeps failing is tried max_attempts times and no more: any run of
  attempts that fail for a passing reason counts each, and leaves the message failed exactly
  when the attempts reach the maximum; before that it is queued again, due one backoff after
  the last failure.
\<close>

lemma outbound_gives_up:
  "\<exists>m'. fail_all cfg bind_other (es @ [(t_claim, t_flush, now, msg)]) m = Inr m' \<and>
    attempts m' = attempts m + int (length es) + 1 \<and>
    (if max_attempts cfg \<le> attempts m + int (length es) + 1 then status m' = FAILED
     else status m' = QUEUED \<and> next_attempt_at m' = Some (now + seconds (worker_backoff_seconds (attempts m'))))"
proof -
  let ?e = "(t_claim, t_flush, now, msg)"
  let ?m = "fold (failing_attempt cfg) (es @ [?e]) m"
  have "attempts ?m = attempts m + int (length es) + 1"
    using outbound_retry.count_fold [of cfg "es @ [?e]" m] by simp
  moreover have "status ?m = FAILED \<longleftrightarrow> max_attempts cfg \<le> attempts m + int (length es) + 1"
    using outbound_retry.dead_after [of "es @ [?e]" cfg m] by (simp add: algebra_simps)
  moreover have "status ?m = QUEUED" if "attempts m + int (length es) + 1 < max_attempts cfg"
    using outbound_retry.live_after [of "es @ [?e]" m cfg] that by (simp add: algebra_simps)
  moreover have "next_attempt_at ?m = Some (now + seconds (worker_backoff_seconds (attempts ?m)))" if "status ?m \<noteq> FAILED"
    using that by (simp add: failing_attempt_def send_failure_def send_backoff_def Let_def split: if_splits)
  ultimately show ?thesis by (simp add: fail_all_fold)
qed

text \<open>
  The waiting times are those documented: 30 s after the first failure, doubling with
  each further one, never shorter than the time before and never above 15 minutes for
  sends or an hour for webhook deliveries.
\<close>

lemma backoff_schedules:
  "map worker_backoff_seconds [1, 2, 3, 4, 5, 6, 7] = [30, 60, 120, 240, 480, 900, 900] \<and>
   map webhook_backoff_seconds [1, 2, 3, 4, 5, 6, 7, 8, 9] = [30, 60, 120, 240, 480, 960, 1920, 3600, 3600] \<and>
   30 \<le> worker_backoff_seconds n \<and> worker_backoff_seconds n \<le> worker_backoff_seconds (n + 1) \<and> worker_backoff_seconds n \<le> 900 \<and>
   30 \<le> webhook_backoff_seconds n \<and> webhook_backoff_seconds n \<le> webhook_backoff_seconds (n + 1) \<and> webhook_backoff_seconds n \<le> 3600"
proof -
  have "map worker_backoff_seconds [1, 2, 3, 4, 5, 6, 7] = [30, 60, 120, 240, 480, 900, 900]"
    "map webhook_backoff_seconds [1, 2, 3, 4, 5, 6, 7, 8, 9] = [30, 60, 120, 240, 480, 960, 1920, 3600, 3600]"
    by (simp_all add: worker_backoff_seconds_def webhook_backoff_seconds_def)
  then show ?thesis
    using worker_policy.backoff_bounds [of n] worker_policy.backoff_step [of n]
      webhook_policy.backoff_bounds [of n] webhook_policy.backoff_step [of n] by blast
qed

text \<open>
  C38. Pruning removes exactly the old terminal messages: every message that is not terminal
  or is younger than the retention period stays as it is, deliveries go with their message
  and only then, and the tables stay consistent.
\<close>

theorem prune_exact:
  assumes "db_ok db"
  shows "db_ok (prune cfg now db) \<and>
    set (messages (prune cfg now db)) =
      {m \<in> set (messages db). status m \<in> {QUEUED, SENDING, SENT} \<or> now - days (retention_days cfg) \<le> created_at m} \<and>
    set (deliveries (prune cfg now db)) =
      {d \<in> set (deliveries db). \<exists>m. m \<in> set (messages (prune cfg now db)) \<and> mid m = d_message_id d}"
proof -
  define P where "P = is_prunable (now - days (retention_days cfg))"
  have dist: "distinct (map mid (messages db))" by (rule db_ok_distinct [OF assms])
  have "P m \<longleftrightarrow> \<not> (status m \<in> {QUEUED, SENDING, SENT} \<or> now - days (retention_days cfg) \<le> created_at m)" for m
    by (cases "status m") (auto simp: P_def is_prunable_def TERMINAL_STATUSES_def)
  moreover have ms: "set (messages (prune cfg now db)) = {m \<in> set (messages db). \<not> P m}"
    by (simp add: prune_def delete_messages_def P_def Let_def)
  moreover have "d_message_id d \<notin> mid ` {m \<in> set (messages db). P m} \<longleftrightarrow>
      (\<exists>m. m \<in> set (messages db) \<and> \<not> P m \<and> mid m = d_message_id d)" if "d \<in> set (deliveries db)" for d
  proof -
    have "d_message_id d \<in> mid ` set (messages db)"
      using assms that by (auto simp: db_ok_def deliveries_ok_def list_all_iff)
    then obtain m where m: "m \<in> set (messages db)" "mid m = d_message_id d" by (metis imageE)
    have "m' = m" if "m' \<in> set (messages db)" "mid m' = d_message_id d" for m'
      using distinct_map_eqD [OF dist that(1) m(1)] that(2) m(2) by simp
    with m show ?thesis by (metis (mono_tags, lifting) imageE image_eqI mem_Collect_eq)
  qed
  moreover have "set (deliveries (prune cfg now db)) =
      {d \<in> set (deliveries db). d_message_id d \<notin> mid ` {m \<in> set (messages db). P m}}"
    by (simp add: prune_def delete_messages_def P_def Let_def)
  ultimately show ?thesis
    using delete_messages_ok [OF assms] by (auto simp: prune_def)
qed

theorem prune_exact_witness:
  "set (messages (prune sample_config (days 100) \<lparr>messages = [sample_message, sample_message\<lparr>mid := ''m2'', status := FAILED\<rparr>], deliveries = []\<rparr>)) =
   {sample_message}"
proof -
  have ok: "db_ok \<lparr>messages = [sample_message, sample_message\<lparr>mid := ''m2'', status := FAILED\<rparr>], deliveries = []\<rparr>"
    by (simp add: db_ok_defs sample_row)
  have "status sample_message = QUEUED" "created_at sample_message = 0" "\<not> days 100 - days (retention_days sample_config) \<le> 0"
    by (simp_all add: sample_row sample_config_def days_def seconds_def)
  then show ?thesis using prune_exact [OF ok, of sample_config "days 100"] by auto
qed

text \<open>The objects a poll holds are the rows it polls, each once; what it writes for one of them.\<close>

lemma polled_pairs:
  assumes "mapR (polled_update fetch) pending = Inr ps"
  shows "map fst ps = pending" and "q \<in> set ps \<Longrightarrow> polled_update fetch (fst q) = Inr q"
proof -
  have one: "polled_update fetch m = Inr q \<Longrightarrow> fst q = m" for m q
    by (auto simp: polled_update_def res_simps)
  have l: "list_all2 (\<lambda>m q. polled_update fetch m = Inr q) pending ps"
    using assms by (simp add: mapR_Inr_iff)
  then show "map fst ps = pending" by (induction rule: list_all2_induct) (auto simp: one)
  show "polled_update fetch (fst q) = Inr q" if "q \<in> set ps"
    using mapR_mem [OF assms that] one by metis
qed

definition poll_result :: "(string \<Rightarrow> message_status option res) \<Rightarrow> instant \<Rightarrow> (string \<Rightarrow> instant) \<Rightarrow> message \<Rightarrow> message \<Rightarrow> bool" where
  "poll_result fetch cutoff t m m' \<longleftrightarrow>
     (\<exists>pid s. status m = SENT \<and> provider_message_id m = Some pid \<and> is_polled cutoff m \<and>
        fetch pid = Inr (Some s) \<and> s \<in> {DELIVERED, FAILED} \<and>
        m' = m\<lparr>status := s, updated_at := t (mid m)\<rparr>)"

context receipt_source
begin

lemma polled_written:
  assumes pol: "is_polled cutoff m" and q: "polled_update fetch m = Inr q"
  shows "msg.written t q = m \<or> poll_result fetch cutoff t m (msg.written t q)"
proof -
  obtain pid where pid: "provider_message_id m = Some pid" "status m = SENT"
    using pol by (auto simp: is_polled_def)
  then obtain st where st: "fetch pid = Inr st"
    "q = (m, case st of None \<Rightarrow> m | Some s \<Rightarrow> if s \<noteq> status m then m\<lparr>status := s\<rparr> else m)"
    using q by (auto simp: polled_update_def res_simps)
  show ?thesis
  proof (cases "\<exists>s. st = Some s \<and> s \<noteq> SENT")
    case False
    then show ?thesis using st(2) pid(2) by (auto simp: msg.written_def split: option.splits)
  next
    case True
    then obtain s where s: "st = Some s" "s \<noteq> SENT" by blast
    have "s \<in> {DELIVERED, FAILED}" using fetch_receipt st(1) s by blast
    moreover have "status (m\<lparr>status := s\<rparr>) \<noteq> status m" using s pid by simp
    then have "m\<lparr>status := s\<rparr> \<noteq> m" by metis
    then have "msg.written t q = m\<lparr>status := s, updated_at := t (mid m)\<rparr>"
      using st(2) s pid(2) by (simp add: msg.written_def message_changes_self)
    ultimately show ?thesis using pid pol st(1) s(1) by (simp add: poll_result_def)
  qed
qed

end

text \<open>
  C37. Polling for receipts touches only what it should: whatever the provider configured
  answers, an iteration changes rows that were sent within the last day and have a provider
  id, and changes them only to delivered or failed as the provider reported; all other rows
  and all deliveries are as before.
\<close>

theorem status_poll_settles_sent:
  assumes "get_provider net wr stamp uuid cfg = Inr p" and "db_ok db"
  shows "deliveries (status_iteration (p_fetch_status p) now t db db) = deliveries db \<and>
    (\<forall>m' \<in> set (messages (status_iteration (p_fetch_status p) now t db db)).
       m' \<in> set (messages db) \<or>
       (\<exists>m pid s. m \<in> set (messages db) \<and> status m = SENT \<and> provider_message_id m = Some pid \<and>
          is_polled (now - days 1) m \<and> p_fetch_status p pid = Inr (Some s) \<and> s \<in> {DELIVERED, FAILED} \<and>
          m' = m\<lparr>status := s, updated_at := t (mid m)\<rparr>)) \<and>
    map mid (messages (status_iteration (p_fetch_status p) now t db db)) = map mid (messages db)"
proof (cases "rbind (mapR (polled_update (p_fetch_status p)) (filter (is_polled (now - days 1)) (messages db)))
    (\<lambda>ps. commit_messages t ps db)")
  case (Inl e)
  then show ?thesis by (simp add: status_iteration_def Let_def)
next
  case (Inr db')
  then obtain ps where ps: "mapR (polled_update (p_fetch_status p)) (filter (is_polled (now - days 1)) (messages db)) = Inr ps"
    and c: "commit_messages t ps db = Inr db'"
    by (auto simp: res_simps)
  have it: "status_iteration (p_fetch_status p) now t db db = db'"
    using Inr by (simp add: status_iteration_def Let_def)
  note pairs = polled_pairs [OF ps]
  have polled: "fst q \<in> set (messages db) \<and> is_polled (now - days 1) (fst q)" if "q \<in> set ps" for q
  proof -
    have "fst q \<in> set (map fst ps)" using that by simp
    then show ?thesis unfolding pairs(1) by simp
  qed
  have "map mid (map fst ps) = map mid (filter (is_polled (now - days 1)) (messages db))" by (simp only: pairs(1))
  then have dist: "distinct (map (\<lambda>q. mid (fst q)) ps)"
    using db_ok_distinct [OF assms(2)] by (simp add: comp_def distinct_map_filter)
  have rows: "set (messages db') = {m \<in> set (messages db). mid m \<notin> (\<lambda>q. mid (fst q)) ` set ps} \<union> msg.written t ` set ps"
    "deliveries db' = deliveries db"
    using commit_owned [OF assms(2) dist, of t] c polled by auto
  have "map mid (messages db') = map mid (messages db)"
    using c msg.flush_keys by (auto simp: commit_messages_def res_simps)
  moreover have "m' \<in> set (messages db) \<or> (\<exists>m. m \<in> set (messages db) \<and> poll_result (p_fetch_status p) (now - days 1) t m m')"
    if in': "m' \<in> set (messages db')" for m'
  proof (cases "m' \<in> set (messages db)")
    case False
    then obtain q where q: "q \<in> set ps" "m' = msg.written t q" using in' unfolding rows(1) by blast
    then show ?thesis
      using polled [OF q(1)] receipt_source.polled_written [OF get_provider_receipts [OF assms(1)] _ pairs(2) [OF q(1)]] by metis
  qed simp
  ultimately show ?thesis unfolding it rows(2) by (simp add: poll_result_def)
qed

definition delivered_net :: "http_request \<Rightarrow> response res" where
  "delivered_net req = Inr \<lparr>status_code = 200, resp_text = [], resp_json = Some (JObj [(''state'', JStr ''Delivered'')])\<rparr>"

definition sent_db :: database where
  "sent_db =
     \<lparr>messages = [sample_message\<lparr>status := SENT, provider_message_id := Some ''g1'', sent_at := Some 3\<rparr>, sample_message\<lparr>mid := ''m2''\<rparr>],
      deliveries = []\<rparr>"

theorem status_poll_settles_sent_witness:
  "\<exists>p. get_provider delivered_net (\<lambda>_ _. Inr ()) [] [] sample_config = Inr p \<and>
     map status (messages (status_iteration (p_fetch_status p) 7 (\<lambda>_. 7) sent_db sent_db)) = [DELIVERED, QUEUED] \<and>
     map mid (messages (status_iteration (p_fetch_status p) 7 (\<lambda>_. 7) sent_db sent_db)) = map mid (messages sent_db)"
proof -
  have ok: "db_ok sent_db"
    by (simp add: sent_db_def db_ok_defs sample_row)
  obtain p where p: "get_provider delivered_net (\<lambda>_ _. Inr ()) [] [] sample_config = Inr p"
    "p_fetch_status p = android_fetch_status delivered_net (rstrip_slash ''http://phone:8080'') (''u'', ''p'')"
    by (simp add: get_provider_def android_provider_def sample_config_def Let_def)
  have "map status (messages (status_iteration (android_fetch_status delivered_net (rstrip_slash ''http://phone:8080'') (''u'', ''p''))
      7 (\<lambda>_. 7) sent_db sent_db)) = [DELIVERED, QUEUED]"
    by code_simp
  with status_poll_settles_sent [OF p(1) ok, of 7 "\<lambda>_. 7"] p show ?thesis by auto
qed

text \<open>
  An accepted answer whose JSON body is not an object raises past the handler: the message
  has been handed over, yet its row stays as it was and no attempt is counted.
\<close>

lemma non_object_answer_raises:
  assumes "net (json_request (base @ ''/message'') auth (android_payload to_num text)) = Inr resp"
    and "status_code resp < 400" and "resp_json resp = Some (JList (x # xs))"
  shows "after_send cfg bind_other (android_send net base auth to_num text) now m = Inl (AttributeError ''get'')"
  using assms by (simp add: android_send_def response_json_def get_or_empty_def after_send_def)

end
