(* ===== verification/Contract.thy ===== *)
theory Contract
  imports Worker
begin

section \<open>What every operation but the send loop promises\<close>

text \<open>
  The service has no locks: handlers and loops interleave at every await and write back
  objects read from older states of the tables. It is safe because of a division of the
  rows. The send loop owns the active ones (queued or sending); every other operation may
  add rows and may change the rows that are no longer active, and nothing else. The locale
  \<open>bystander\<close> states this as a contract of an operation \<open>op d0 d1\<close>, with \<open>d0\<close> the tables it
  read and \<open>d1\<close> those it commits to; it is interpreted for the API, the webhook, the status,
  fan-out and prune loops.
\<close>

definition active :: "message \<Rightarrow> bool" where
  "active m \<longleftrightarrow> status m = QUEUED \<or> status m = SENDING"

definition attempt_limit :: "config \<Rightarrow> int" where
  "attempt_limit cfg = max 1 (max_attempts cfg)"

text \<open>What holds of each row.\<close>

definition row_ok :: "config \<Rightarrow> message \<Rightarrow> bool" where
  "row_ok cfg m \<longleftrightarrow>
     (active m \<longrightarrow> provider_message_id m = None \<and> direction m = OUTBOUND \<and>
        attempts m < attempt_limit cfg) \<and>
     0 \<le> attempts m \<and> attempts m \<le> attempt_limit cfg \<and>
     (status m = PUBLISHED \<longrightarrow> transport m = Ntfy)"

definition tables_ok :: "config \<Rightarrow> database \<Rightarrow> bool" where
  "tables_ok cfg db \<longleftrightarrow> db_ok db \<and> (\<forall>m \<in> set (messages db). row_ok cfg m)"

text \<open>A row seen inactive once is inactive wherever it is seen later.\<close>

definition settled :: "database \<Rightarrow> database \<Rightarrow> bool" where
  "settled d0 d1 \<longleftrightarrow>
     (\<forall>m0 \<in> set (messages d0). \<not> active m0 \<longrightarrow>
        (\<forall>m1 \<in> set (messages d1). mid m1 = mid m0 \<longrightarrow> \<not> active m1))"

definition added_row :: "message \<Rightarrow> bool" where
  "added_row m \<longleftrightarrow>
     attempts m = 0 \<and>
     (status m = QUEUED \<and> direction m = OUTBOUND \<and> provider_message_id m = None \<or>
      status m = RECEIVED \<and> direction m = INBOUND)"

text \<open>What was asked for or received: columns that nothing changes once a row exists.\<close>

type_synonym content =
  "string option \<times> string option \<times> string \<times> string \<times> string option \<times> string option \<times> int \<times> instant"

definition content :: "message \<Rightarrow> content" where
  "content m =
     (to_number m, from_number m, body m, service m, idempotency_key m, notification_topic m,
      notification_priority m, created_at m)"

definition inactive_change :: "message \<Rightarrow> message \<Rightarrow> bool" where
  "inactive_change m1 m2 \<longleftrightarrow>
     mid m2 = mid m1 \<and> \<not> active m1 \<and> \<not> active m2 \<and> transport m2 = transport m1 \<and>
     attempts m2 = attempts m1 \<and> direction m2 = direction m1 \<and> content m2 = content m1 \<and>
     (status m2 = status m1 \<or> status m2 \<in> {DELIVERED, FAILED})"

definition bystands :: "string set \<Rightarrow> database \<Rightarrow> database \<Rightarrow> bool" where
  "bystands fresh d1 d2 \<longleftrightarrow>
     db_ok d2 \<and>
     (\<forall>m \<in> set (messages d1). active m \<longrightarrow> m \<in> set (messages d2)) \<and>
     (\<forall>m \<in> set (messages d2). m \<in> set (messages d1) \<or> (mid m \<in> fresh \<and> added_row m) \<or>
        (\<exists>m1 \<in> set (messages d1). inactive_change m1 m))"

definition ids :: "database \<Rightarrow> string set" where
  "ids db = mid ` set (messages db)"

locale bystander =
  fixes cfg :: config and fresh :: "string set" and op :: "database \<Rightarrow> database \<Rightarrow> database"
  assumes op_bystands:
    "tables_ok cfg d0 \<Longrightarrow> tables_ok cfg d1 \<Longrightarrow> settled d0 d1 \<Longrightarrow> bystands fresh d1 (op d0 d1)"
begin

lemma op_tables_ok:
  assumes "tables_ok cfg d0" "tables_ok cfg d1" "settled d0 d1"
  shows "tables_ok cfg (op d0 d1)"
proof -
  have b: "bystands fresh d1 (op d0 d1)" using assms by (rule op_bystands)
  have "row_ok cfg m" if "m \<in> set (messages (op d0 d1))" for m
  proof -
    have old: "row_ok cfg m1" if "m1 \<in> set (messages d1)" for m1
      using that assms(2) by (simp add: tables_ok_def)
    have add: "row_ok cfg m" if "added_row m"
      using that by (auto simp: added_row_def row_ok_def active_def attempt_limit_def)
    have chg: "row_ok cfg m" if "m1 \<in> set (messages d1)" "inactive_change m1 m" for m1
      using old [OF that(1)] that(2) by (auto simp: row_ok_def inactive_change_def)
    show ?thesis using b that old add chg unfolding bystands_def by blast
  qed
  with b show ?thesis by (simp add: tables_ok_def bystands_def)
qed

text \<open>The rows the send loop holds stay what they are.\<close>

lemma op_keeps_active:
  "tables_ok cfg d0 \<Longrightarrow> tables_ok cfg d1 \<Longrightarrow> settled d0 d1 \<Longrightarrow>
   m \<in> set (messages d1) \<Longrightarrow> active m \<Longrightarrow> m \<in> set (messages (op d0 d1))"
  using op_bystands by (auto simp: bystands_def)

lemma op_active_origin:
  "tables_ok cfg d0 \<Longrightarrow> tables_ok cfg d1 \<Longrightarrow> settled d0 d1 \<Longrightarrow>
   m \<in> set (messages (op d0 d1)) \<Longrightarrow> active m \<Longrightarrow>
   m \<in> set (messages d1) \<or> mid m \<in> fresh \<and> added_row m"
  using op_bystands by (auto simp: bystands_def inactive_change_def)

lemma op_transport:
  "tables_ok cfg d0 \<Longrightarrow> tables_ok cfg d1 \<Longrightarrow> settled d0 d1 \<Longrightarrow>
   m \<in> set (messages (op d0 d1)) \<Longrightarrow> mid m \<notin> fresh \<Longrightarrow>
   \<exists>m1 \<in> set (messages d1). mid m1 = mid m \<and> transport m1 = transport m \<and> attempts m1 = attempts m"
  using op_bystands by (fastforce simp: bystands_def inactive_change_def)

end

subsection \<open>The contract is reflexive, transitive, and kept by commits on inactive rows\<close>

lemma bystands_refl: "db_ok d \<Longrightarrow> bystands fresh d d"
  by (simp add: bystands_def)

definition quiet_change :: "message \<times> message \<Rightarrow> bool" where
  "quiet_change p \<longleftrightarrow>
     (\<exists>s. snd p = (fst p)\<lparr>status := s\<rparr> \<and> s \<in> {DELIVERED, FAILED} \<and> provider_message_id (fst p) \<noteq> None)"

lemma message_changes_status:
  "message_changes t old (old\<lparr>status := s\<rparr>) row =
     row\<lparr>status := pick (status old) s (status row), updated_at := t\<rparr>"
  by (simp add: message_changes_def)

lemma inactive_change_trans: "inactive_change a b \<Longrightarrow> inactive_change b c \<Longrightarrow> inactive_change a c"
  by (auto simp: inactive_change_def)

lemma inactive_change_update:
  "\<not> active r \<Longrightarrow> s \<in> {DELIVERED, FAILED} \<Longrightarrow>
   inactive_change r (message_changes t old (old\<lparr>status := s\<rparr>) r)"
  by (auto simp: inactive_change_def message_changes_status active_def pick_def content_def)

text \<open>One flush of such changes: active rows are not touched, the others change quietly.\<close>

lemma flush_quiet:
  assumes "flush_rows mid message_changes t ps rs = Inr rs'"
    and "\<forall>p \<in> set ps. quiet_change p \<or> snd p = fst p"
    and "\<forall>p \<in> set ps. snd p \<noteq> fst p \<longrightarrow> (\<forall>r \<in> set rs. mid r = mid (fst p) \<longrightarrow> \<not> active r)"
  shows "(\<forall>r \<in> set rs. active r \<longrightarrow> r \<in> set rs') \<and>
    (\<forall>r \<in> set rs'. r \<in> set rs \<or> (\<exists>r1 \<in> set rs. inactive_change r1 r))"
  using assms
proof (induction ps arbitrary: rs)
  case (Cons p ps)
  obtain old new where p: "p = (old, new)" by (cases p)
  show ?case
  proof (cases "new = old")
    case True
    with Cons p show ?thesis by auto
  next
    case False
    then obtain s where s: "new = old\<lparr>status := s\<rparr>" "s \<in> {DELIVERED, FAILED}"
      using Cons.prems(2) p by (auto simp: quiet_change_def)
    let ?f = "message_changes (t (mid old)) old new"
    let ?rs = "update_row mid (mid old) ?f rs"
    have quiet: "\<not> active r" if "r \<in> set rs" "mid r = mid old" for r
      using Cons.prems(3) p False that by auto
    have chg: "inactive_change r (?f r)" if "r \<in> set rs" "mid r = mid old" for r
      using quiet [OF that] s by (simp add: inactive_change_update)
    have stay: "\<forall>r \<in> set rs. active r \<longrightarrow> r \<in> set ?rs"
      using quiet by (force simp: update_row_def)
    have origin: "\<forall>r \<in> set ?rs. r \<in> set rs \<or> (\<exists>r1 \<in> set rs. inactive_change r1 r)"
      using chg by (auto simp: update_row_def)
    have fl: "flush_rows mid message_changes t ps ?rs = Inr rs'"
      using Cons.prems(1) p False by (simp split: if_splits)
    have inact: "\<not> active r" if "r \<in> set ?rs" "mid r = mid (fst q)" "q \<in> set ps" "snd q \<noteq> fst q" for r q
    proof -
      from origin that(1) consider "r \<in> set rs" | r1 where "r1 \<in> set rs" "inactive_change r1 r" by blast
      then show ?thesis
        using Cons.prems(3) that(2,3,4) by cases (auto simp: inactive_change_def)
    qed
    have "(\<forall>r \<in> set ?rs. active r \<longrightarrow> r \<in> set rs') \<and>
        (\<forall>r \<in> set rs'. r \<in> set ?rs \<or> (\<exists>r1 \<in> set ?rs. inactive_change r1 r))"
      using Cons.prems(2) inact by (intro Cons.IH [OF fl]) auto
    with stay origin show ?thesis by (meson inactive_change_trans)
  qed
qed simp

lemma commit_quiet:
  assumes "commit_messages t ps d1 = Inr d2" and "db_ok d1"
    and "\<forall>p \<in> set ps. quiet_change p \<or> snd p = fst p"
    and "\<forall>p \<in> set ps. snd p \<noteq> fst p \<longrightarrow> (\<forall>r \<in> set (messages d1). mid r = mid (fst p) \<longrightarrow> \<not> active r)"
  shows "bystands fresh d1 d2"
proof -
  obtain rs where fl: "flush_rows mid message_changes t ps (messages d1) = Inr rs"
    and d2: "d2 = d1\<lparr>messages := rs\<rparr>"
    using assms(1) by (auto simp: commit_messages_def res_simps)
  have "db_ok d2"
    using commit_messages_ok [OF assms(1,2)] assms(3) by (fastforce simp: quiet_change_def)
  then show ?thesis
    using flush_quiet [OF fl assms(3,4)] by (auto simp: bystands_def d2)
qed

lemma settled_inactive:
  assumes "tables_ok cfg d0" "settled d0 d1" "m \<in> set (messages d0)" "provider_message_id m \<noteq> None"
    "r \<in> set (messages d1)" "mid r = mid m"
  shows "\<not> active r"
proof -
  have "row_ok cfg m" using assms(1,3) by (simp add: tables_ok_def)
  then have "\<not> active m" using assms(4) by (simp add: row_ok_def)
  then show ?thesis using assms(2,3,5,6) unfolding settled_def by metis
qed

subsection \<open>The operations keep the contract\<close>

lemma send_message_bystands:
  assumes "send_message lib re_search c r svc fresh db0 d1 db2 = (res, d2)" and "db_ok d1"
  shows "bystands (range (\<lambda>i. seed_id (fresh i))) d1 d2"
  using assms(1)
proof (rule send_message_cases)
  fix ns ms
  assume cr: "created_rows lib re_search c r svc fresh ns = Inr ms" and ins: "insert_messages ms d1 = Inr d2"
  have d2: "db_ok d2" "messages d2 = messages d1 @ ms" using insert_messages_ok [OF ins assms(2)] by auto
  have "mid m \<in> range (\<lambda>i. seed_id (fresh i)) \<and> added_row m" if "m \<in> set ms" for m
  proof -
    have "mid m \<in> set (map mid ms)" using that by simp
    then show ?thesis
      using created_rows_Inr(2) [OF cr that] unfolding created_rows_Inr(4) [OF cr]
      by (auto simp: added_row_def)
  qed
  then show ?thesis using d2 by (auto simp: bystands_def)
qed (auto intro: bystands_refl assms(2))

interpretation api_send:
  bystander cfg "range (\<lambda>i. seed_id (fresh i))"
    "\<lambda>d0 d1. snd (send_message lib re_search c r svc fresh d0 d1 d2)"
  for cfg lib re_search c r svc fresh d2
proof
  fix d0 d1
  assume "tables_ok cfg d1"
  then have "db_ok d1" by (simp add: tables_ok_def)
  then show "bystands (range (\<lambda>i. seed_id (fresh i))) d1 (snd (send_message lib re_search c r svc fresh d0 d1 d2))"
    by (metis prod.collapse send_message_bystands)
qed

lemma receipt_bystands:
  assumes "apply_receipt t event et d0 d1 = Inr (reply, d2)"
    and ok: "tables_ok cfg d0" "tables_ok cfg d1" "settled d0 d1"
  shows "bystands fresh d1 d2"
  using assms(1)
proof (rule apply_receipt_cases)
  assume "d2 = d1"
  with ok(2) show ?thesis by (simp add: bystands_refl tables_ok_def)
next
  fix m pid
  assume m: "m \<in> set (messages d0)" "provider_message_id m = Some pid"
    and c: "commit_messages (\<lambda>_. t) [(m, m\<lparr>status := DELIVERED\<rparr>)] d1 = Inr d2"
  show ?thesis
    by (rule commit_quiet [OF c])
       (use m ok(2) settled_inactive [OF ok(1,3) m(1)] in \<open>auto simp: quiet_change_def tables_ok_def\<close>)
qed

lemma handle_event_bystands:
  assumes ev: "handle_event lib c fromiso bind_other seed parsed d0 d1 = Inr (reply, d2)"
    and ok: "tables_ok cfg d0" "tables_ok cfg d1" "settled d0 d1"
  shows "bystands {in_uuid seed} d1 d2"
proof -
  have db: "db_ok d1" using ok(2) by (simp add: tables_ok_def)
  from ev show ?thesis
  proof (rule handle_event_cases)
    assume "d2 = d1"
    with db show ?thesis by (simp add: bystands_refl)
  next
    fix event et
    assume "apply_receipt (in_updated seed) event et d0 d1 = Inr (reply, d2)"
    from receipt_bystands [OF this ok] show ?thesis .
  next
    fix event
    assume "receive_message lib c fromiso bind_other seed event d0 d1 = Inr (reply, d2)"
    then show ?thesis
    proof (rule receive_message_cases)
      fix m
      assume m: "store_received c seed m d1 = Inr (reply, d2)" "mid m = in_uuid seed"
        "direction m = INBOUND" "status m = RECEIVED" "attempts m = 0"
      from store_received_Inr [OF m(1) db] m show ?thesis
        by (auto simp: bystands_def added_row_def)
    qed (use db in \<open>simp add: bystands_refl\<close>)
  qed
qed

interpretation inbound:
  bystander cfg "{in_uuid seed}"
    "\<lambda>d0 d1. snd (android_gateway_inbound hmac loads lib c fromiso bind_other seed xs xh raw d0 d1)"
  for cfg hmac loads lib c fromiso bind_other seed xs xh raw
proof
  fix d0 d1
  assume ok: "tables_ok cfg d0" "tables_ok cfg d1" "settled d0 d1"
  show "bystands {in_uuid seed} d1
      (snd (android_gateway_inbound hmac loads lib c fromiso bind_other seed xs xh raw d0 d1))"
  proof (cases "rbind (verify_inbound_signature hmac c xs xh raw)
      (\<lambda>raw_body. handle_event lib c fromiso bind_other seed (loads raw_body) d0 d1)")
    case (Inl e)
    then show ?thesis using ok(2) by (simp add: android_gateway_inbound_def tables_ok_def bystands_refl)
  next
    case (Inr p)
    then obtain body_text where "handle_event lib c fromiso bind_other seed (loads body_text) d0 d1 = Inr (fst p, snd p)"
      by (auto simp: res_simps)
    from handle_event_bystands [OF this ok] Inr show ?thesis
      by (cases p) (simp add: android_gateway_inbound_def)
  qed
qed

lemma status_iteration_bystands:
  assumes "receipt_source fetch" and ok: "tables_ok cfg d0" "tables_ok cfg d1" "settled d0 d1"
  shows "bystands {} d1 (status_iteration fetch now t d0 d1)"
proof (cases "rbind (mapR (polled_update fetch) (filter (is_polled (now - days 1)) (messages d0)))
    (\<lambda>ps. commit_messages t ps d1)")
  case (Inl e)
  then show ?thesis using ok(2) by (simp add: status_iteration_def Let_def tables_ok_def bystands_refl)
next
  case (Inr d2)
  then obtain ps where ps: "mapR (polled_update fetch) (filter (is_polled (now - days 1)) (messages d0)) = Inr ps"
    and c: "commit_messages t ps d1 = Inr d2"
    by (auto simp: res_simps)
  have polled: "fst p \<in> set (messages d0) \<and> provider_message_id (fst p) \<noteq> None \<and> (quiet_change p \<or> snd p = fst p)"
    if "p \<in> set ps" for p
  proof -
    from mapR_mem [OF ps that] obtain m where
      m: "m \<in> set (filter (is_polled (now - days 1)) (messages d0))" "polled_update fetch m = Inr p"
      by blast
    then show ?thesis
      using receipt_source.fetch_receipt [OF assms(1)]
      by (fastforce simp: polled_update_def quiet_change_def is_polled_def res_simps split: option.splits if_splits)
  qed
  have "\<not> active r" if "p \<in> set ps" "r \<in> set (messages d1)" "mid r = mid (fst p)" for p r
    using settled_inactive [OF ok(1,3)] polled [OF that(1)] that(2,3) by blast
  then have "bystands {} d1 d2"
    by (intro commit_quiet [OF c]) (use ok polled in \<open>auto simp: tables_ok_def\<close>)
  with Inr show ?thesis by (simp add: status_iteration_def Let_def)
qed

interpretation status_poll:
  bystander cfg "{}"
    "\<lambda>d0 d1. case get_provider net wr stamp uuid c of
       Inr p \<Rightarrow> status_iteration (p_fetch_status p) now t d0 d1 | Inl _ \<Rightarrow> d1"
  for cfg net wr stamp uuid c now t
proof
  fix d0 d1
  assume ok: "tables_ok cfg d0" "tables_ok cfg d1" "settled d0 d1"
  show "bystands {} d1 (case get_provider net wr stamp uuid c of
       Inr p \<Rightarrow> status_iteration (p_fetch_status p) now t d0 d1 | Inl _ \<Rightarrow> d1)"
    using ok status_iteration_bystands [OF get_provider_receipts ok]
    by (auto split: sum.splits intro: bystands_refl simp: tables_ok_def)
qed

text \<open>The fan-out loop writes delivery rows only, the prune loop deletes terminal messages.\<close>

lemma flush_deliveries_ok:
  "flush_rows d_id delivery_changes t ps ds = Inr ds' \<Longrightarrow>
   \<forall>p \<in> set ps. d_message_id (snd p) = d_message_id (fst p) \<and> d_subscriber (snd p) = d_subscriber (fst p) \<Longrightarrow>
   map (\<lambda>d. (d_message_id d, d_subscriber d)) ds' = map (\<lambda>d. (d_message_id d, d_subscriber d)) ds"
proof (induction ps arbitrary: ds)
  case (Cons p ps)
  obtain old new where p: "p = (old, new)" by (cases p)
  let ?f = "delivery_changes (t (d_id old)) old new"
  have f: "d_message_id (?f d) = d_message_id d \<and> d_subscriber (?f d) = d_subscriber d" for d
    using Cons.prems(2) p by (simp add: delivery_changes_def)
  have "map (\<lambda>d. (d_message_id d, d_subscriber d)) (update_row d_id (d_id old) ?f ds) =
        map (\<lambda>d. (d_message_id d, d_subscriber d)) ds"
    by (simp add: update_row_def f)
  with Cons p show ?case by (auto split: if_splits)
qed simp

lemma commit_deliveries_ok:
  assumes "commit_deliveries t ps db = Inr db'" and "db_ok db"
    and "\<forall>p \<in> set ps. d_message_id (snd p) = d_message_id (fst p) \<and> d_subscriber (snd p) = d_subscriber (fst p)"
  shows "db_ok db' \<and> messages db' = messages db"
proof -
  obtain ds where fl: "flush_rows d_id delivery_changes t ps (deliveries db) = Inr ds"
    and db': "db' = db\<lparr>deliveries := ds\<rparr>"
    using assms(1) by (auto simp: commit_deliveries_def res_simps)
  have keys: "map (\<lambda>d. (d_message_id d, d_subscriber d)) ds = map (\<lambda>d. (d_message_id d, d_subscriber d)) (deliveries db)"
    by (rule flush_deliveries_ok [OF fl assms(3)])
  then have "d_message_id ` set ds = d_message_id ` set (deliveries db)"
    by (metis (no_types, lifting) image_image image_set map_map comp_def fst_conv map_eq_conv)
  then have "list_all (\<lambda>d. d_message_id d \<in> X) ds = list_all (\<lambda>d. d_message_id d \<in> X) (deliveries db)" for X
    by (metis (mono_tags, lifting) image_subset_iff list_all_iff)
  with keys msg.flush_keys del.flush_keys [OF fl] assms(2) show ?thesis
    by (simp add: db' db_ok_def deliveries_ok_def)
qed

lemma fanout_iteration_bystands:
  assumes frame: "\<And>d m d'. attempt d m = Inr d' \<Longrightarrow> d_message_id d' = d_message_id d \<and> d_subscriber d' = d_subscriber d"
    and "db_ok d1"
  shows "bystands {} d1 (fanout_iteration attempt now t d0 d1)"
proof -
  define due where "due = take 20 (sort_key d_created_at (filter (delivery_due now) (deliveries d0)))"
  show ?thesis
  proof (cases "rbind (mapR (fanout_one attempt d0) due) (\<lambda>ps. commit_deliveries t ps d1)")
    case (Inl e)
    then show ?thesis using assms(2) by (simp add: fanout_iteration_def due_def [symmetric] Let_def bystands_refl)
  next
    case (Inr d2)
    then obtain ps where ps: "mapR (fanout_one attempt d0) due = Inr ps" and c: "commit_deliveries t ps d1 = Inr d2"
      by (auto simp: res_simps)
    have "d_message_id (snd p) = d_message_id (fst p) \<and> d_subscriber (snd p) = d_subscriber (fst p)"
      if "p \<in> set ps" for p
      using mapR_mem [OF ps that] frame by (auto simp: fanout_one_def res_simps split: option.splits)
    then have "db_ok d2 \<and> messages d2 = messages d1"
      using commit_deliveries_ok [OF c assms(2)] by blast
    then have "bystands {} d1 d2" by (simp add: bystands_def)
    with Inr assms(2) show ?thesis
      by (simp add: fanout_iteration_def due_def [symmetric] Let_def bystands_refl)
  qed
qed

interpretation fanout:
  bystander cfg "{}"
    "fanout_iteration (\<lambda>d m. deliver hmac isoformat net configured (tn (d_id d)) d m) now t"
  for cfg hmac isoformat net configured tn now t
proof
  fix d0 d1
  assume "tables_ok cfg d1"
  then show "bystands {} d1
      (fanout_iteration (\<lambda>d m. deliver hmac isoformat net configured (tn (d_id d)) d m) now t d0 d1)"
    by (intro fanout_iteration_bystands) (auto simp: tables_ok_def dest: deliver_frame)
qed

lemma prune_bystands: "db_ok d \<Longrightarrow> bystands {} d (prune c now d)"
proof -
  assume "db_ok d"
  then have "db_ok (prune c now d)" by (simp add: prune_def delete_messages_ok)
  then show ?thesis
    by (auto simp: bystands_def prune_def delete_messages_def Let_def is_prunable_def active_def
        TERMINAL_STATUSES_def)
qed

interpretation pruning: bystander cfg "{}" "\<lambda>d0 d1. prune c now d1"
  for cfg c now
  by unfold_locales (simp add: prune_bystands tables_ok_def)

end
