(* ===== verification/Relay.thy ===== *)
theory Relay
  imports Contract
begin

section \<open>The whole service as a state machine (main.py's tasks and the handlers)\<close>

text \<open>
  One process runs the API handlers and four loops on one event loop; they interleave at
  every await. A state has the tables as they are (\<open>current\<close>), every earlier state of them
  (\<open>past\<close>: an operation may commit what it computed from any of them), where the send loop
  stands (\<open>pc\<close>, with the ORM objects it holds) and the calls it has made to the outside
  (\<open>calls\<close>, newest first). A crash loses \<open>pc\<close> only. The other operations are one step each,
  reading any earlier state; their row ids are fresh, as \<open>uuid4\<close>'s are taken to be.
\<close>

datatype send_pc =
    AtTop
  | Requeuing database
  | AtClaim
  | Claiming database
  | Publishing message
  | Texting message
  | Storing message message bool  \<comment> \<open>object as loaded, as changed, and whether the SMS follows\<close>

record relay =
  current :: database
  past :: "database list"
  pc :: send_pc
  calls :: "effect list"

record 'n externals =
  x_lib :: "'n phonelib"
  x_re_search :: "string \<Rightarrow> string \<Rightarrow> bool res"
  x_hmac :: hmac_hex
  x_loads :: "string \<Rightarrow> json res"
  x_fromiso :: "string \<Rightarrow> (instant \<times> int option) option"
  x_isoformat :: "instant \<Rightarrow> string"
  x_bind :: "json \<Rightarrow> string res"

definition advance :: "database \<Rightarrow> relay \<Rightarrow> relay" where
  "advance d s = s\<lparr>past := current s # past s, current := d\<rparr>"

definition seen :: "relay \<Rightarrow> database set" where
  "seen s = insert (current s) (set (past s))"

definition used_ids :: "relay \<Rightarrow> string set" where
  "used_ids s = (\<Union>d \<in> seen s. ids d)"

text \<open>The message the send loop works on: claimed, its outcome not yet stored.\<close>

fun held :: "send_pc \<Rightarrow> string option" where
  "held (Publishing m) = Some (mid m)"
| "held (Texting m) = Some (mid m)"
| "held (Storing old new go) = Some (mid old)"
| "held _ = None"

definition start :: "database \<Rightarrow> relay" where
  "start d = \<lparr>current = d, past = [], pc = AtTop, calls = []\<rparr>"

inductive relay_step :: "'n externals \<Rightarrow> config \<Rightarrow> relay \<Rightarrow> relay \<Rightarrow> bool" for X cfg where
  api_send:
    "d0 \<in> seen s \<Longrightarrow> range (\<lambda>i. seed_id (fresh i)) \<inter> used_ids s = {} \<Longrightarrow>
     relay_step X cfg s
       (advance (snd (send_message (x_lib X) (x_re_search X) cfg r svc fresh d0 (current s) (current s))) s)"
| inbound:
    "d0 \<in> seen s \<Longrightarrow> {in_uuid seed} \<inter> used_ids s = {} \<Longrightarrow>
     relay_step X cfg s
       (advance (snd (android_gateway_inbound (x_hmac X) (x_loads X) (x_lib X) cfg (x_fromiso X) (x_bind X)
                        seed xs xh raw d0 (current s))) s)"
| poll_status:
    "d0 \<in> seen s \<Longrightarrow>
     relay_step X cfg s
       (advance (case get_provider net wr stamp uuid cfg of
                   Inr p \<Rightarrow> status_iteration (p_fetch_status p) now t d0 (current s)
                 | Inl _ \<Rightarrow> current s) s)"
| fan_out:
    "d0 \<in> seen s \<Longrightarrow>
     relay_step X cfg s
       (advance (fanout_iteration
                   (\<lambda>d m. deliver (x_hmac X) (x_isoformat X) net (subscribers cfg) (tn (d_id d)) d m)
                   now t d0 (current s)) s)"
| pruned: "relay_step X cfg s (advance (prune cfg now (current s)) s)"
| requeue_read: "pc s = AtTop \<Longrightarrow> relay_step X cfg s (s\<lparr>pc := Requeuing (current s)\<rparr>)"
| requeue_commit:
    "pc s = Requeuing d0 \<Longrightarrow> requeue_stuck cfg now due t d0 (current s) = Inr d' \<Longrightarrow>
     relay_step X cfg s ((advance d' s)\<lparr>pc := AtClaim\<rparr>)"
| requeue_error:
    "pc s = Requeuing d0 \<Longrightarrow> requeue_stuck cfg now due t d0 (current s) = Inl e \<Longrightarrow>
     relay_step X cfg s (s\<lparr>pc := AtTop\<rparr>)"
| claim_read: "pc s = AtClaim \<Longrightarrow> relay_step X cfg s (s\<lparr>pc := Claiming (current s)\<rparr>)"
| claim_none:
    "pc s = Claiming d0 \<Longrightarrow> claim_next now t d0 (current s) = Inr (None, d') \<Longrightarrow>
     relay_step X cfg s ((advance d' s)\<lparr>pc := AtTop\<rparr>)"
| claim_some:
    "pc s = Claiming d0 \<Longrightarrow> claim_next now t d0 (current s) = Inr (Some m, d') \<Longrightarrow>
     relay_step X cfg s
       ((advance d' s)\<lparr>pc := (if transport m = Ntfy then Publishing m else Texting m)\<rparr>)"
| claim_error:
    "pc s = Claiming d0 \<Longrightarrow> claim_next now t d0 (current s) = Inl e \<Longrightarrow>
     relay_step X cfg s (s\<lparr>pc := AtTop\<rparr>)"
| publish_ok:
    "pc s = Publishing m \<Longrightarrow>
     relay_step X cfg s
       (s\<lparr>pc := Storing m (published receipt now m) False, calls := CallNtfy (mid m) # calls s\<rparr>)"
| publish_failed:
    "pc s = Publishing m \<Longrightarrow> publish_error e \<Longrightarrow>
     relay_step X cfg s
       (s\<lparr>pc := Storing m (fall_back m) True, calls := CallNtfy (mid m) # calls s\<rparr>)"
| publish_raised:
    "pc s = Publishing m \<Longrightarrow> \<not> publish_error e \<Longrightarrow>
     relay_step X cfg s (s\<lparr>pc := AtTop, calls := CallNtfy (mid m) # calls s\<rparr>)"
| texted:
    "pc s = Texting m \<Longrightarrow> after_send cfg (x_bind X) result now m = Inr m' \<Longrightarrow>
     relay_step X cfg s (s\<lparr>pc := Storing m m' False, calls := CallSms (mid m) # calls s\<rparr>)"
| text_raised:
    "pc s = Texting m \<Longrightarrow> after_send cfg (x_bind X) result now m = Inl e \<Longrightarrow>
     relay_step X cfg s (s\<lparr>pc := AtTop, calls := CallSms (mid m) # calls s\<rparr>)"
| stored:
    "pc s = Storing old new go \<Longrightarrow> commit_messages t [(old, new)] (current s) = Inr d' \<Longrightarrow>
     relay_step X cfg s
       ((advance d' s)\<lparr>pc := (if go then Texting (message_changes (t (mid old)) old new old) else AtTop)\<rparr>)"
| store_error:
    "pc s = Storing old new go \<Longrightarrow> commit_messages t [(old, new)] (current s) = Inl e \<Longrightarrow>
     relay_step X cfg s (s\<lparr>pc := AtTop\<rparr>)"
| crash: "relay_step X cfg s (s\<lparr>pc := AtTop\<rparr>)"

text \<open>
  Tables the history may start on: consistent, and no row tried yet, since \<open>calls\<close> starts
  empty. The empty tables of a new installation are such; a restart is a \<open>crash\<close> step.
\<close>

definition startable :: "config \<Rightarrow> database \<Rightarrow> bool" where
  "startable cfg d \<longleftrightarrow> tables_ok cfg d \<and> (\<forall>m \<in> set (messages d). attempts m = 0)"

inductive relay_reachable :: "'n externals \<Rightarrow> config \<Rightarrow> relay \<Rightarrow> bool" for X cfg where
  init: "startable cfg d \<Longrightarrow> relay_reachable X cfg (start d)"
| step: "relay_reachable X cfg s \<Longrightarrow> relay_step X cfg s s' \<Longrightarrow> relay_reachable X cfg s'"

subsection \<open>The invariant\<close>

definition sms_calls :: "relay \<Rightarrow> string \<Rightarrow> int" where
  "sms_calls s i = int (count_list (calls s) (CallSms i))"

definition holds :: "config \<Rightarrow> database \<Rightarrow> database \<Rightarrow> bool" where
  "holds cfg d0 d \<longleftrightarrow> tables_ok cfg d0 \<and> (\<forall>m \<in> set (messages d0). active m \<longrightarrow> m \<in> set (messages d))"

definition store_ok :: "config \<Rightarrow> relay \<Rightarrow> message \<Rightarrow> message \<Rightarrow> bool \<Rightarrow> bool" where
  "store_ok cfg s old new go \<longleftrightarrow>
     mid new = mid old \<and> service new = service old \<and> idempotency_key new = idempotency_key old \<and>
     updated_at new = updated_at old \<and> row_ok cfg new \<and> new \<noteq> old \<and>
     (if go then new = fall_back old else transport new = transport old) \<and>
     attempts new \<le> sms_calls s (mid old)"

definition pc_ok :: "config \<Rightarrow> relay \<Rightarrow> bool" where
  "pc_ok cfg s \<longleftrightarrow>
     (case pc s of
        AtTop \<Rightarrow> True
      | AtClaim \<Rightarrow> True
      | Requeuing d0 \<Rightarrow> holds cfg d0 (current s)
      | Claiming d0 \<Rightarrow> holds cfg d0 (current s)
      | Publishing m \<Rightarrow> m \<in> set (messages (current s)) \<and> status m = SENDING \<and> transport m = Ntfy
      | Texting m \<Rightarrow> m \<in> set (messages (current s)) \<and> status m = SENDING \<and> transport m \<noteq> Ntfy
      | Storing old new go \<Rightarrow>
          old \<in> set (messages (current s)) \<and> status old = SENDING \<and> store_ok cfg s old new go)"

definition calls_ok :: "relay \<Rightarrow> bool" where
  "calls_ok s \<longleftrightarrow>
     (\<forall>i. 0 < sms_calls s i \<longrightarrow> i \<in> used_ids s) \<and>
     (\<forall>m \<in> set (messages (current s)).
        attempts m \<le> sms_calls s (mid m) \<and> (transport m = Ntfy \<longrightarrow> sms_calls s (mid m) = 0))"

definition relay_inv :: "config \<Rightarrow> relay \<Rightarrow> bool" where
  "relay_inv cfg s \<longleftrightarrow>
     tables_ok cfg (current s) \<and>
     (\<forall>d \<in> seen s. tables_ok cfg d \<and> settled d (current s)) \<and>
     pc_ok cfg s \<and> calls_ok s"

subsection \<open>How the tables may move\<close>

definition tame :: "string set \<Rightarrow> database \<Rightarrow> database \<Rightarrow> bool" where
  "tame fresh d1 d2 \<longleftrightarrow>
     (\<forall>m2 \<in> set (messages d2). active m2 \<longrightarrow>
        (\<exists>m1 \<in> set (messages d1). mid m1 = mid m2 \<and> active m1) \<or> mid m2 \<in> fresh)"

lemma settled_tame: "settled d0 d1 \<Longrightarrow> tame F d1 d2 \<Longrightarrow> F \<inter> ids d0 = {} \<Longrightarrow> settled d0 d2"
  unfolding settled_def tame_def ids_def by (metis disjoint_iff image_eqI)

lemma settled_self: "tables_ok cfg d \<Longrightarrow> settled d d"
  unfolding settled_def tables_ok_def by (metis db_ok_distinct distinct_map inj_onD)

lemma seen_advance [simp]: "seen (advance d s) = insert d (seen s)"
  by (auto simp: seen_def advance_def)

lemma used_ids_advance: "used_ids s \<subseteq> used_ids (advance d s)"
  by (auto simp: used_ids_def)

lemma advance_simps [simp]:
  "current (advance d s) = d" "pc (advance d s) = pc s" "calls (advance d s) = calls s"
  by (simp_all add: advance_def)

lemma sms_calls_simps [simp]:
  "sms_calls (advance d s) = sms_calls s"
  "sms_calls (s\<lparr>pc := p\<rparr>) = sms_calls s"
  by (auto simp: sms_calls_def fun_eq_iff advance_def)

lemma seen_pc [simp]: "seen (s\<lparr>pc := p\<rparr>) = seen s" "seen (s\<lparr>calls := c\<rparr>) = seen s"
  by (simp_all add: seen_def)

lemma used_ids_pc [simp]: "used_ids (s\<lparr>pc := p\<rparr>) = used_ids s" "used_ids (s\<lparr>calls := c\<rparr>) = used_ids s"
  by (simp_all add: used_ids_def)

lemma store_ok_cong [simp]:
  "store_ok cfg (advance d s) old new go = store_ok cfg s old new go"
  "store_ok cfg (s\<lparr>pc := p\<rparr>) old new go = store_ok cfg s old new go"
  by (simp_all add: store_ok_def)

text \<open>The parts of the invariant on the tables, for any tame move.\<close>

lemma tables_move:
  assumes inv: "relay_inv cfg s" and ok: "tables_ok cfg d2" and t: "tame F (current s) d2"
    and F: "F \<inter> used_ids s = {}"
  shows "\<forall>d \<in> seen (advance d2 s). tables_ok cfg d \<and> settled d d2"
proof
  fix d assume d: "d \<in> seen (advance d2 s)"
  show "tables_ok cfg d \<and> settled d d2"
  proof (cases "d = d2")
    case True
    with ok show ?thesis by (simp add: settled_self)
  next
    case False
    with d have "d \<in> seen s" by simp
    moreover from this have "F \<inter> ids d = {}" using F by (auto simp: used_ids_def)
    ultimately show ?thesis using inv t by (auto simp: relay_inv_def intro: settled_tame)
  qed
qed

subsection \<open>Bystanders keep the invariant\<close>

lemma bystander_keeps_inv:
  assumes byst: "bystander cfg F op" and inv: "relay_inv cfg s" and d0: "d0 \<in> seen s"
    and F: "F \<inter> used_ids s = {}"
  shows "relay_inv cfg (advance (op d0 (current s)) s)"
proof -
  let ?d2 = "op d0 (current s)"
  have ok: "tables_ok cfg d0" "tables_ok cfg (current s)" "settled d0 (current s)"
    using inv d0 by (auto simp: relay_inv_def)
  note ops = bystander.op_tables_ok [OF byst ok] bystander.op_keeps_active [OF byst ok]
    bystander.op_active_origin [OF byst ok] bystander.op_transport [OF byst ok]
    bystander.op_bystands [OF byst ok]
  have "tame F (current s) ?d2" using ops(3) by (auto simp: tame_def)
  then have tables: "\<forall>d \<in> seen (advance ?d2 s). tables_ok cfg d \<and> settled d ?d2"
    by (rule tables_move [OF inv ops(1) _ F])
  have sending: "m \<in> set (messages ?d2)" if "m \<in> set (messages (current s))" "status m = SENDING" for m
    using ops(2) [OF that(1)] that(2) by (simp add: active_def)
  have pc: "pc_ok cfg (advance ?d2 s)"
    using inv ops(2) sending
    by (auto simp: relay_inv_def pc_ok_def holds_def split: send_pc.splits)
  have "attempts m \<le> sms_calls s (mid m) \<and> (transport m = Ntfy \<longrightarrow> sms_calls s (mid m) = 0)"
    if m: "m \<in> set (messages ?d2)" for m
  proof (cases "mid m \<in> F")
    case True
    then have "mid m \<notin> used_ids s" using F by auto
    then have none: "\<not> 0 < sms_calls s (mid m)" using inv by (auto simp: relay_inv_def calls_ok_def)
    have "mid m \<notin> ids (current s)" using \<open>mid m \<notin> used_ids s\<close> by (auto simp: used_ids_def seen_def)
    then have "added_row m"
      using ops(5) m by (auto simp: bystands_def ids_def inactive_change_def)
    with none show ?thesis by (auto simp: added_row_def sms_calls_def)
  next
    case False
    with ops(4) [OF m] inv show ?thesis by (fastforce simp: relay_inv_def calls_ok_def)
  qed
  then have "calls_ok (advance ?d2 s)"
    using inv used_ids_advance [of s ?d2] by (auto simp: relay_inv_def calls_ok_def)
  with tables pc ops(1) show ?thesis by (simp add: relay_inv_def)
qed

subsection \<open>The send loop keeps the invariant\<close>

text \<open>A commit of the send loop: rows as they were, or new states of rows that were active.\<close>

definition owner_move :: "config \<Rightarrow> relay \<Rightarrow> database \<Rightarrow> bool" where
  "owner_move cfg s d2 \<longleftrightarrow>
     db_ok d2 \<and>
     (\<forall>m2 \<in> set (messages d2). m2 \<in> set (messages (current s)) \<or>
        (\<exists>m1 \<in> set (messages (current s)). active m1 \<and> mid m2 = mid m1 \<and> row_ok cfg m2 \<and>
           (transport m2 = Ntfy \<longrightarrow> transport m1 = Ntfy) \<and> attempts m2 \<le> sms_calls s (mid m1)))"

lemma owner_keeps_inv:
  assumes inv: "relay_inv cfg s" and mv: "owner_move cfg s d2"
    and pc: "pc_ok cfg ((advance d2 s)\<lparr>pc := p\<rparr>)"
  shows "relay_inv cfg ((advance d2 s)\<lparr>pc := p\<rparr>)"
proof -
  have old: "row_ok cfg m" if "m \<in> set (messages (current s))" for m
    using inv that by (simp add: relay_inv_def tables_ok_def)
  have ok: "tables_ok cfg d2"
    using mv old by (auto simp: owner_move_def tables_ok_def)
  have "tame {} (current s) d2"
    using mv by (fastforce simp: owner_move_def tame_def)
  then have tables: "\<forall>d \<in> seen (advance d2 s). tables_ok cfg d \<and> settled d d2"
    by (rule tables_move [OF inv ok]) simp
  have "attempts m \<le> sms_calls s (mid m) \<and> (transport m = Ntfy \<longrightarrow> sms_calls s (mid m) = 0)"
    if "m \<in> set (messages d2)" for m
  proof -
    have base: "\<forall>m \<in> set (messages (current s)). attempts m \<le> sms_calls s (mid m) \<and>
        (transport m = Ntfy \<longrightarrow> sms_calls s (mid m) = 0)"
      using inv by (simp add: relay_inv_def calls_ok_def)
    from mv that consider "m \<in> set (messages (current s))"
      | m1 where "m1 \<in> set (messages (current s))" "mid m = mid m1"
          "transport m = Ntfy \<longrightarrow> transport m1 = Ntfy" "attempts m \<le> sms_calls s (mid m1)"
      unfolding owner_move_def by blast
    then show ?thesis using base by cases auto
  qed
  then have "calls_ok ((advance d2 s)\<lparr>pc := p\<rparr>)"
    using inv used_ids_advance [of s d2] by (auto simp: relay_inv_def calls_ok_def)
  with ok tables pc show ?thesis by (simp add: relay_inv_def)
qed

lemma relay_inv_pc: "relay_inv cfg s \<Longrightarrow> pc_ok cfg (s\<lparr>pc := p\<rparr>) \<Longrightarrow> relay_inv cfg (s\<lparr>pc := p\<rparr>)"
  by (simp add: relay_inv_def calls_ok_def)

lemma pc_ok_idle [simp]: "pc_ok cfg (s\<lparr>pc := AtTop\<rparr>)" "pc_ok cfg (s\<lparr>pc := AtClaim\<rparr>)"
  by (simp_all add: pc_ok_def)

text \<open>Logging a call.\<close>

lemma sms_calls_log:
  "sms_calls (s\<lparr>calls := CallNtfy i # calls s\<rparr>) j = sms_calls s j"
  "sms_calls (s\<lparr>calls := CallSms i # calls s\<rparr>) j = sms_calls s j + (if i = j then 1 else 0)"
  by (auto simp: sms_calls_def)

lemma sms_calls_log_pc:
  "sms_calls (s\<lparr>pc := p, calls := c\<rparr>) = sms_calls (s\<lparr>calls := c\<rparr>)"
  by (auto simp: sms_calls_def fun_eq_iff)

lemma log_ntfy_inv:
  assumes "relay_inv cfg s" and "pc_ok cfg (s\<lparr>pc := p, calls := CallNtfy i # calls s\<rparr>)"
  shows "relay_inv cfg (s\<lparr>pc := p, calls := CallNtfy i # calls s\<rparr>)"
  using assms by (simp add: relay_inv_def calls_ok_def sms_calls_log sms_calls_log_pc)

lemma log_sms_inv:
  assumes inv: "relay_inv cfg s" and m: "m \<in> set (messages (current s))" "transport m \<noteq> Ntfy"
    and pc: "pc_ok cfg (s\<lparr>pc := p, calls := CallSms (mid m) # calls s\<rparr>)"
  shows "relay_inv cfg (s\<lparr>pc := p, calls := CallSms (mid m) # calls s\<rparr>)"
proof -
  have same: "m' = m" if "m' \<in> set (messages (current s))" "mid m' = mid m" for m'
    using inv m that by (meson db_ok_distinct distinct_map inj_onD relay_inv_def tables_ok_def)
  have used: "mid m \<in> used_ids s" using m by (auto simp: used_ids_def seen_def ids_def)
  have base: "calls_ok s" using inv by (simp add: relay_inv_def)
  have "transport m' = Ntfy \<longrightarrow> mid m \<noteq> mid m'" if "m' \<in> set (messages (current s))" for m'
    using same [OF that] m(2) by auto
  with base used have "calls_ok (s\<lparr>pc := p, calls := CallSms (mid m) # calls s\<rparr>)"
    by (auto simp: calls_ok_def sms_calls_log sms_calls_log_pc)
  with inv pc show ?thesis by (simp add: relay_inv_def)
qed

lemma holds_current: "tables_ok cfg (current s) \<Longrightarrow> holds cfg (current s) (current s)"
  by (simp add: holds_def)

lemma row_of_current:
  "relay_inv cfg s \<Longrightarrow> m \<in> set (messages (current s)) \<Longrightarrow> row_ok cfg m \<and> attempts m \<le> sms_calls s (mid m)"
  by (simp add: relay_inv_def tables_ok_def calls_ok_def)

text \<open>The requeue: its objects are still the rows, since nothing else touches an active row.\<close>

lemma requeue_move:
  assumes inv: "relay_inv cfg s" and hold: "holds cfg d0 (current s)"
    and rq: "requeue_stuck cfg now due t d0 (current s) = Inr d2"
  shows "owner_move cfg s d2"
proof -
  define stuck where "stuck = filter (is_stuck (now - seconds (stuck_after_seconds cfg))) (messages d0)"
  define re where "re = (\<lambda>m :: message. m\<lparr>status := QUEUED, next_attempt_at := Some (due (mid m))\<rparr>)"
  have db: "db_ok (current s)" using inv by (simp add: relay_inv_def tables_ok_def)
  show ?thesis
  proof (cases "stuck = []")
    case True
    then have "d2 = current s" using rq by (simp add: requeue_stuck_def stuck_def [symmetric] Let_def)
    with db show ?thesis by (simp add: owner_move_def)
  next
    case False
    let ?ps = "map (\<lambda>m. (m, re m)) stuck"
    have c: "commit_messages t ?ps (current s) = Inr d2"
      using rq False by (simp add: requeue_stuck_def stuck_def [symmetric] re_def Let_def)
    have sending: "m \<in> set (messages (current s)) \<and> status m = SENDING" if "m \<in> set stuck" for m
      using hold that by (auto simp: stuck_def is_stuck_def holds_def active_def)
    have dist: "distinct (map (\<lambda>p. mid (fst p)) ?ps)"
      using hold by (simp add: comp_def stuck_def holds_def tables_ok_def db_ok_distinct distinct_map_filter)
    obtain d' where d': "commit_messages t ?ps (current s) = Inr d'"
      "set (messages d') = {m \<in> set (messages (current s)). mid m \<notin> (\<lambda>p. mid (fst p)) ` set ?ps} \<union> msg.written t ` set ?ps"
      using commit_owned [OF db dist, of t] sending by auto
    have w: "msg.written t (m, re m) = (re m)\<lparr>updated_at := t (mid m)\<rparr>" if "status m = SENDING" for m
    proof -
      have "re m \<noteq> m" using that by (metis message.select_convs(3) message.surjective message.update_convs(3,13)
            message_status.distinct(1) re_def)
      then show ?thesis by (simp add: msg.written_def message_changes_self re_def)
    qed
    have "row_ok cfg (msg.written t (m, re m)) \<and> mid (msg.written t (m, re m)) = mid m \<and>
        transport (msg.written t (m, re m)) = transport m \<and> attempts (msg.written t (m, re m)) = attempts m"
      if "m \<in> set stuck" for m
      unfolding w [OF sending [OF that, THEN conjunct2]]
      using sending [OF that] row_of_current [OF inv, of m]
      by (auto simp: re_def row_ok_def active_def)
    moreover have "db_ok d2"
      using commit_messages_ok [OF c db] by (auto simp: re_def)
    ultimately show ?thesis
      using d' c sending row_of_current [OF inv] by (force simp: owner_move_def active_def)
  qed
qed

text \<open>A commit of the one object the send loop holds.\<close>

lemma single_commit:
  assumes inv: "relay_inv cfg s" and old: "old \<in> set (messages (current s))" "active old"
    and c: "commit_messages t [(old, new)] (current s) = Inr d2"
    and new: "new \<noteq> old" "service new = service old" "idempotency_key new = idempotency_key old"
    and row: "row_ok cfg (message_changes (t (mid old)) old new old)"
      "transport (message_changes (t (mid old)) old new old) = Ntfy \<longrightarrow> transport old = Ntfy"
      "attempts (message_changes (t (mid old)) old new old) \<le> sms_calls s (mid old)"
  shows "owner_move cfg s d2 \<and> message_changes (t (mid old)) old new old \<in> set (messages d2)"
proof -
  have db: "db_ok (current s)" using inv by (simp add: relay_inv_def tables_ok_def)
  obtain d' where d': "commit_messages t [(old, new)] (current s) = Inr d'"
    "set (messages d') = {m \<in> set (messages (current s)). mid m \<notin> (\<lambda>p. mid (fst p)) ` set [(old, new)]}
       \<union> msg.written t ` set [(old, new)]"
    using commit_owned [OF db, of "[(old, new)]" t] old by auto
  have "db_ok d2" using commit_messages_ok [OF c db] new by simp
  with d' c old row new(1) show ?thesis
    by (auto simp: owner_move_def msg.written_def intro!: bexI [of _ old])
qed

subsection \<open>Every step keeps the invariant\<close>

lemma claim_next_Some:
  assumes "claim_next now t d0 d1 = Inr (Some m, d2)"
  obtains m0 where "m0 \<in> set (messages d0)" "is_due now m0" "m = claimed now (t (mid m0)) m0"
    "commit_messages t [(m0, m0\<lparr>status := SENDING, updated_at := now\<rparr>)] d1 = Inr d2"
    "\<forall>m' \<in> set (messages d0). is_due now m' \<longrightarrow> created_at m0 \<le> created_at m'"
proof -
  define xs where "xs = sort_key created_at (filter (is_due now) (messages d0))"
  obtain m0 where m0: "scalar_one_or_none (take 1 xs) = Inr (Some m0)"
    and rest: "m = claimed now (t (mid m0)) m0"
      "commit_messages t [(m0, m0\<lparr>status := SENDING, updated_at := now\<rparr>)] d1 = Inr d2"
    using assms by (auto simp: claim_next_def xs_def [symmetric] res_simps split: option.splits)
  obtain ys where ys: "xs = m0 # ys" using m0 by (cases xs) auto
  show thesis
    using sort_key_hd_least [OF ys [unfolded xs_def]] rest by (intro that [of m0]) auto
qed

lemma claim_next_None: "claim_next now t d0 d1 = Inr (None, d2) \<Longrightarrow> d2 = d1"
  by (auto simp: claim_next_def res_simps split: option.splits)

lemma row_ok_claimed: "row_ok cfg m \<Longrightarrow> status m = QUEUED \<Longrightarrow> row_ok cfg (claimed now t m)"
  by (auto simp: row_ok_def active_def)

lemma claim_some_inv:
  assumes inv: "relay_inv cfg s" and p: "pc s = Claiming d0"
    and cl: "claim_next now t d0 (current s) = Inr (Some m, d')"
  shows "relay_inv cfg ((advance d' s)\<lparr>pc := (if transport m = Ntfy then Publishing m else Texting m)\<rparr>)"
  using cl
proof (rule claim_next_Some)
  fix m0
  assume m0: "m0 \<in> set (messages d0)" "is_due now m0" and m: "m = claimed now (t (mid m0)) m0"
    and c: "commit_messages t [(m0, m0\<lparr>status := SENDING, updated_at := now\<rparr>)] (current s) = Inr d'"
  have q: "status m0 = QUEUED" using m0(2) by (simp add: is_due_def)
  have cur: "m0 \<in> set (messages (current s))"
    using inv p m0 q by (auto simp: relay_inv_def pc_ok_def holds_def active_def)
  note row = row_of_current [OF inv cur]
  have ne: "m0\<lparr>status := SENDING, updated_at := now\<rparr> \<noteq> m0"
    using q by (metis message.select_convs(3) message.surjective message.update_convs(3,17)
        message_status.distinct(1))
  have "owner_move cfg s d' \<and> claimed now (t (mid m0)) m0 \<in> set (messages d')"
    using single_commit [OF inv cur _ c ne] row q row_ok_claimed [of cfg m0 now "t (mid m0)"]
      claimed_simps [of now "t (mid m0)" m0]
    unfolding claimed_def by (simp add: active_def)
  then show ?thesis by (intro owner_keeps_inv [OF inv]) (auto simp: pc_ok_def m)
qed

lemma stored_inv:
  assumes inv: "relay_inv cfg s" and p: "pc s = Storing old new go"
    and c: "commit_messages t [(old, new)] (current s) = Inr d'"
  shows "relay_inv cfg ((advance d' s)\<lparr>pc := (if go then Texting (message_changes (t (mid old)) old new old) else AtTop)\<rparr>)"
proof -
  have cur: "old \<in> set (messages (current s))" "status old = SENDING" and st: "store_ok cfg s old new go"
    using inv p by (auto simp: relay_inv_def pc_ok_def)
  let ?w = "message_changes (t (mid old)) old new old"
  have w: "?w = new\<lparr>updated_at := t (mid old)\<rparr>"
    using st by (simp add: store_ok_def message_changes_self)
  have row: "row_ok cfg ?w" "transport ?w = Ntfy \<longrightarrow> transport old = Ntfy" "attempts ?w \<le> sms_calls s (mid old)"
    using st unfolding w by (auto simp: store_ok_def row_ok_def active_def fall_back_def split: if_splits)
  have "owner_move cfg s d' \<and> ?w \<in> set (messages d')"
    using single_commit [OF inv cur(1) _ c] cur(2) st row by (simp add: store_ok_def active_def)
  moreover have "go \<Longrightarrow> status ?w = SENDING \<and> transport ?w \<noteq> Ntfy"
    using st cur(2) unfolding w by (simp add: store_ok_def fall_back_def)
  ultimately show ?thesis by (intro owner_keeps_inv [OF inv]) (auto simp: pc_ok_def)
qed

lemma publish_store_ok:
  assumes inv: "relay_inv cfg s" and p: "pc s = Publishing m"
  shows "store_ok cfg s m (published receipt now m) False" and "store_ok cfg s m (fall_back m) True"
proof -
  have m: "m \<in> set (messages (current s))" "status m = SENDING" "transport m = Ntfy"
    using inv p by (auto simp: relay_inv_def pc_ok_def)
  note row = row_of_current [OF inv m(1)]
  have "status (published receipt now m) = PUBLISHED" "transport (fall_back m) = SmsFallback"
    by (simp_all add: published_def fall_back_def)
  then have "published receipt now m \<noteq> m" "fall_back m \<noteq> m" using m by auto
  then show "store_ok cfg s m (published receipt now m) False" "store_ok cfg s m (fall_back m) True"
    using row m by (auto simp: store_ok_def published_def fall_back_def row_ok_def active_def)
qed

lemma after_send_row:
  assumes "after_send cfg b result now m = Inr m'" and "row_ok cfg m" and "status m = SENDING"
  shows "row_ok cfg m' \<and> attempts m' = attempts m + 1 \<and> transport m' = transport m \<and> mid m' = mid m \<and>
    service m' = service m \<and> idempotency_key m' = idempotency_key m \<and> updated_at m' = updated_at m"
  using assms
  by (auto simp: after_send_def sent_def send_failure_def row_ok_def active_def attempt_limit_def
      Let_def res_simps split: sum.splits exn.splits if_splits)

lemma texted_inv:
  assumes inv: "relay_inv cfg s" and p: "pc s = Texting m"
    and snd: "after_send cfg b result now m = Inr m'"
  shows "relay_inv cfg (s\<lparr>pc := Storing m m' False, calls := CallSms (mid m) # calls s\<rparr>)"
proof -
  have m: "m \<in> set (messages (current s))" "status m = SENDING" "transport m \<noteq> Ntfy"
    using inv p by (auto simp: relay_inv_def pc_ok_def)
  note row = row_of_current [OF inv m(1)]
  have m': "row_ok cfg m' \<and> attempts m' = attempts m + 1 \<and> transport m' = transport m \<and> mid m' = mid m \<and>
    service m' = service m \<and> idempotency_key m' = idempotency_key m \<and> updated_at m' = updated_at m"
    using after_send_row [OF snd _ m(2)] row by blast
  then have "m' \<noteq> m" by auto
  with m' m row show ?thesis
    by (intro log_sms_inv [OF inv m(1,3)])
       (simp add: pc_ok_def store_ok_def sms_calls_log sms_calls_log_pc)
qed

lemma relay_step_inv: "relay_step X cfg s s' \<Longrightarrow> relay_inv cfg s \<Longrightarrow> relay_inv cfg s'"
proof (induction rule: relay_step.induct)
  case (api_send d0 s fresh r svc)
  then show ?case by (intro bystander_keeps_inv [OF api_send.bystander_axioms])
next
  case (inbound d0 s seed xs xh raw)
  then show ?case by (intro bystander_keeps_inv [OF inbound.bystander_axioms])
next
  case (poll_status d0 s net wr stamp uuid now t)
  then show ?case
    using bystander_keeps_inv [OF status_poll.bystander_axioms] by simp
next
  case (fan_out d0 s net tn now t)
  then show ?case by (intro bystander_keeps_inv [OF fanout.bystander_axioms]) auto
next
  case (pruned s now)
  then show ?case
    using bystander_keeps_inv [OF pruning.bystander_axioms, of cfg s "current s"] by (simp add: seen_def)
next
  case (requeue_read s)
  then show ?case by (intro relay_inv_pc) (auto simp: pc_ok_def relay_inv_def holds_current)
next
  case (requeue_commit s d0 now due t d')
  then have "holds cfg d0 (current s)" by (simp add: relay_inv_def pc_ok_def)
  then show ?case using requeue_commit by (intro owner_keeps_inv requeue_move) auto
next
  case (claim_read s)
  then show ?case by (intro relay_inv_pc) (auto simp: pc_ok_def relay_inv_def holds_current)
next
  case (claim_none s d0 now t d')
  then have "owner_move cfg s d'"
    by (auto dest!: claim_next_None simp: owner_move_def relay_inv_def tables_ok_def)
  then show ?case using claim_none by (intro owner_keeps_inv) auto
next
  case (claim_some s d0 now t m d')
  then show ?case by (intro claim_some_inv)
next
  case (publish_ok s m receipt now)
  then show ?case
    using publish_store_ok(1) [OF publish_ok(2,1), of receipt now]
    by (intro log_ntfy_inv) (auto simp: pc_ok_def relay_inv_def store_ok_def sms_calls_log sms_calls_log_pc)
next
  case (publish_failed s m e)
  then show ?case
    using publish_store_ok(2) [OF publish_failed(3,1)]
    by (intro log_ntfy_inv) (auto simp: pc_ok_def relay_inv_def store_ok_def sms_calls_log sms_calls_log_pc)
next
  case (publish_raised s m e)
  then show ?case by (intro log_ntfy_inv) (auto simp: pc_ok_def)
next
  case (texted s m result now m')
  then show ?case by (intro texted_inv)
next
  case (text_raised s m result now e)
  then show ?case by (intro log_sms_inv) (auto simp: pc_ok_def relay_inv_def)
next
  case (stored s old new go t d')
  then show ?case by (intro stored_inv)
qed (auto intro: relay_inv_pc)

lemma start_inv: "startable cfg d \<Longrightarrow> relay_inv cfg (start d)"
  by (auto simp: startable_def relay_inv_def start_def seen_def settled_self pc_ok_def calls_ok_def sms_calls_def)

lemma reachable_inv: "relay_reachable X cfg s \<Longrightarrow> relay_inv cfg s"
  by (induction rule: relay_reachable.induct) (auto intro: start_inv relay_step_inv)

lemma publishing_not_texted: "relay_inv cfg s \<Longrightarrow> pc s = Publishing m \<Longrightarrow> CallSms (mid m) \<notin> set (calls s)"
  by (auto simp: relay_inv_def pc_ok_def calls_ok_def sms_calls_def count_list_0_iff)

end
