(* ===== verification/SendLoop.thy ===== *)
theory SendLoop
  imports Relay
begin

section \<open>One iteration of the send loop as a run of steps\<close>

text \<open>
  \<open>send_iteration\<close> (Worker) is \<open>send_loop\<close>'s body as one function; \<open>relay_step\<close> (Relay) has
  it cut at every await. Here the function is shown to be a run of the steps with nothing in
  between: the same calls in the same order, the same tables, back at the top of the loop.
  The lemmas go backwards through the loop, one per place where it can stand.
\<close>

abbreviation relay_steps :: "'n externals \<Rightarrow> config \<Rightarrow> relay \<Rightarrow> relay \<Rightarrow> bool" where
  "relay_steps X cfg \<equiv> (relay_step X cfg)\<^sup>*\<^sup>*"

lemma step_then: "relay_step X cfg s s1 \<Longrightarrow> relay_steps X cfg s1 s2 \<Longrightarrow> relay_steps X cfg s s2"
  by (rule converse_rtranclp_into_rtranclp)

definition ends_at :: "'n externals \<Rightarrow> config \<Rightarrow> relay \<Rightarrow> effect list \<times> database \<Rightarrow> bool" where
  "ends_at X cfg s r \<longleftrightarrow>
     (\<exists>s'. relay_steps X cfg s s' \<and> pc s' = AtTop \<and> current s' = snd r \<and> calls s' = rev (fst r) @ calls s)"

lemma ends_at_step:
  assumes "relay_step X cfg s s1" and "ends_at X cfg s1 (effs, d)" and "calls s1 = rev pre @ calls s"
  shows "ends_at X cfg s (pre @ effs, d)"
  using assms step_then unfolding ends_at_def by fastforce

lemma ends_at_silent:
  "relay_step X cfg s s1 \<Longrightarrow> calls s1 = calls s \<Longrightarrow> ends_at X cfg s1 r \<Longrightarrow> ends_at X cfg s r"
  using ends_at_step [of X cfg s s1 "fst r" "snd r" "[]"] by simp

lemma ends_at_top: "pc s = AtTop \<Longrightarrow> ends_at X cfg s ([], current s)"
  by (auto simp: ends_at_def)

lemma storing_runs:
  assumes "pc s = Storing old new False" and d0: "current s = d0"
  shows "ends_at X cfg s ([], case commit_messages t [(old, new)] d0 of Inl _ \<Rightarrow> d0 | Inr d \<Rightarrow> d)"
proof (cases "commit_messages t [(old, new)] (current s)")
  case (Inl e)
  show ?thesis
    by (rule ends_at_silent [OF store_error [OF assms(1) Inl]])
       (use Inl d0 ends_at_top [of "s\<lparr>pc := AtTop\<rparr>" X cfg] in simp_all)
next
  case (Inr d)
  show ?thesis
    by (rule ends_at_silent [OF stored [OF assms(1) Inr]])
       (use Inr d0 ends_at_top [of "(advance d s)\<lparr>pc := AtTop\<rparr>" X cfg] in simp_all)
qed

lemma texting_runs:
  assumes "pc s = Texting m"
  shows "ends_at X cfg s (send_sms cfg (x_bind X) send env m (current s))"
proof (cases "after_send cfg (x_bind X) (send (case to_number m of None \<Rightarrow> [] | Some n \<Rightarrow> n) (body m)) (e_now_send env) m")
  case (Inl e)
  have "send_sms cfg (x_bind X) send env m (current s) = ([CallSms (mid m)] @ [], current s)"
    using Inl by (simp add: send_sms_def)
  then show ?thesis
    using ends_at_step [where pre = "[CallSms (mid m)]" and effs = "[]" and d = "current s", OF text_raised [OF assms Inl]]
      ends_at_top [of "s\<lparr>pc := AtTop, calls := CallSms (mid m) # calls s\<rparr>" X cfg] by simp
next
  case (Inr m')
  have "send_sms cfg (x_bind X) send env m (current s) =
      ([CallSms (mid m)] @ [], case commit_messages (e_send_flush env) [(m, m')] (current s) of Inl _ \<Rightarrow> current s | Inr d \<Rightarrow> d)"
    using Inr by (simp add: send_sms_def split: sum.splits)
  moreover have "ends_at X cfg (s\<lparr>pc := Storing m m' False, calls := CallSms (mid m) # calls s\<rparr>)
      ([], case commit_messages (e_send_flush env) [(m, m')] (current s) of Inl _ \<Rightarrow> current s | Inr d \<Rightarrow> d)"
    by (rule storing_runs) simp_all
  ultimately show ?thesis
    using ends_at_step [where pre = "[CallSms (mid m)]" and effs = "[]", OF texted [OF assms Inr]] by simp
qed

text \<open>What follows the claim of a message for ntfy, from the tables \<open>d\<close> the claim left.\<close>

definition published_or_texted ::
  "config \<Rightarrow> (json \<Rightarrow> string res) \<Rightarrow> (message \<Rightarrow> string res) \<Rightarrow> (string \<Rightarrow> string \<Rightarrow> json res) \<Rightarrow>
   send_env \<Rightarrow> message \<Rightarrow> database \<Rightarrow> effect list \<times> database"
where
  "published_or_texted cfg bind_other pub send env m d =
     (case pub m of
        Inr receipt \<Rightarrow>
          ([CallNtfy (mid m)],
           case commit_messages (e_publish_flush env) [(m, published receipt (e_now_publish env) m)] d of
             Inl _ \<Rightarrow> d | Inr d3 \<Rightarrow> d3)
      | Inl e \<Rightarrow>
          if \<not> publish_error e then ([CallNtfy (mid m)], d)
          else (case commit_messages (e_publish_flush env) [(m, fall_back m)] d of
                  Inl _ \<Rightarrow> ([CallNtfy (mid m)], d)
                | Inr d3 \<Rightarrow>
                    let r = send_sms cfg bind_other send env
                              (message_changes (e_publish_flush env (mid m)) m (fall_back m) m) d3
                    in (CallNtfy (mid m) # fst r, snd r)))"

lemma send_iteration_eq:
  "send_iteration cfg bind_other pub send env d =
     (case requeue_stuck cfg (e_now_cutoff env) (e_requeue_due env) (e_requeue_flush env) d d of
        Inl _ \<Rightarrow> ([], d)
      | Inr d1 \<Rightarrow>
          (case claim_next (e_now_claim env) (e_claim_flush env) d1 d1 of
             Inl _ \<Rightarrow> ([], d1)
           | Inr (None, d2) \<Rightarrow> ([], d2)
           | Inr (Some m, d2) \<Rightarrow>
               if transport m = Ntfy then published_or_texted cfg bind_other pub send env m d2
               else send_sms cfg bind_other send env m d2))"
  unfolding send_iteration_def published_or_texted_def Let_def
  by (simp split: sum.split option.split prod.split)

lemma publishing_runs:
  assumes "pc s = Publishing m"
  shows "ends_at X cfg s (published_or_texted cfg (x_bind X) pub send env m (current s))"
proof (cases "pub m")
  case (Inr receipt)
  let ?s = "s\<lparr>pc := Storing m (published receipt (e_now_publish env) m) False, calls := CallNtfy (mid m) # calls s\<rparr>"
  have "ends_at X cfg ?s ([], case commit_messages (e_publish_flush env) [(m, published receipt (e_now_publish env) m)] (current s) of
      Inl _ \<Rightarrow> current s | Inr d \<Rightarrow> d)"
    by (rule storing_runs) simp_all
  from ends_at_step [where pre = "[CallNtfy (mid m)]", OF publish_ok [OF assms] this] show ?thesis
    using Inr by (simp add: published_or_texted_def)
next
  case (Inl e)
  show ?thesis
  proof (cases "publish_error e")
    case False
    then show ?thesis
      using Inl ends_at_step [where pre = "[CallNtfy (mid m)]" and effs = "[]" and d = "current s", OF publish_raised [OF assms False]]
        ends_at_top [of "s\<lparr>pc := AtTop, calls := CallNtfy (mid m) # calls s\<rparr>" X cfg] by (simp add: published_or_texted_def)
  next
    case True
    let ?s = "s\<lparr>pc := Storing m (fall_back m) True, calls := CallNtfy (mid m) # calls s\<rparr>"
    let ?m = "message_changes (e_publish_flush env (mid m)) m (fall_back m) m"
    show ?thesis
    proof (cases "commit_messages (e_publish_flush env) [(m, fall_back m)] (current s)")
      case err: (Inl e')
      have "ends_at X cfg ?s ([], current s)"
        by (rule ends_at_silent [OF store_error [of ?s m "fall_back m" True "e_publish_flush env" e']])
           (use err ends_at_top [of "?s\<lparr>pc := AtTop\<rparr>" X cfg] in simp_all)
      from ends_at_step [where pre = "[CallNtfy (mid m)]", OF publish_failed [OF assms True] this] show ?thesis
        using Inl True err by (simp add: published_or_texted_def)
    next
      case ok: (Inr d)
      let ?s1 = "(advance d ?s)\<lparr>pc := Texting ?m\<rparr>"
      have "ends_at X cfg ?s1 (send_sms cfg (x_bind X) send env ?m d)"
        using texting_runs [of ?s1 ?m X cfg send env] by simp
      then have "ends_at X cfg ?s (send_sms cfg (x_bind X) send env ?m d)"
        by (rule ends_at_silent [OF stored [of ?s m "fall_back m" True "e_publish_flush env" d], rotated 2, simplified])
           (use ok in simp_all)
      then have "ends_at X cfg ?s (fst (send_sms cfg (x_bind X) send env ?m d), snd (send_sms cfg (x_bind X) send env ?m d))"
        by simp
      from ends_at_step [where pre = "[CallNtfy (mid m)]", OF publish_failed [OF assms True] this] show ?thesis
        using Inl True ok by (simp add: published_or_texted_def Let_def)
    qed
  qed
qed

lemma claiming_runs:
  assumes "pc s = AtClaim" and d1 [simp]: "current s = d1"
  shows "ends_at X cfg s
    (case claim_next (e_now_claim env) (e_claim_flush env) d1 d1 of
       Inl _ \<Rightarrow> ([], d1)
     | Inr (None, d) \<Rightarrow> ([], d)
     | Inr (Some m, d) \<Rightarrow>
         if transport m = Ntfy then published_or_texted cfg (x_bind X) pub send env m d
         else send_sms cfg (x_bind X) send env m d)"
proof -
  let ?s = "s\<lparr>pc := Claiming d1\<rparr>"
  show ?thesis
  proof (cases "claim_next (e_now_claim env) (e_claim_flush env) d1 d1")
    case (Inl e)
    have "ends_at X cfg ?s ([], d1)"
      by (rule ends_at_silent [OF claim_error [of ?s d1 "e_now_claim env" "e_claim_flush env" e]])
         (use Inl ends_at_top [of "?s\<lparr>pc := AtTop\<rparr>" X cfg] in simp_all)
    with Inl show ?thesis by (intro ends_at_silent [OF claim_read [OF assms(1), unfolded d1]]) simp_all
  next
    case (Inr p)
    obtain found d where p: "p = (found, d)" by (cases p)
    show ?thesis
    proof (cases found)
      case None
      have "ends_at X cfg ?s ([], d)"
        by (rule ends_at_silent [OF claim_none [of ?s d1 "e_now_claim env" "e_claim_flush env" d]])
           (use Inr p None ends_at_top [of "(advance d ?s)\<lparr>pc := AtTop\<rparr>" X cfg] in simp_all)
      with Inr p None show ?thesis by (intro ends_at_silent [OF claim_read [OF assms(1), unfolded d1]]) simp_all
    next
      case (Some m)
      let ?s1 = "(advance d ?s)\<lparr>pc := (if transport m = Ntfy then Publishing m else Texting m)\<rparr>"
      have st: "relay_step X cfg ?s ?s1"
        by (rule claim_some [of ?s d1 "e_now_claim env" "e_claim_flush env"]) (use Inr p Some in simp_all)
      have st0: "relay_step X cfg s ?s" by (rule claim_read [OF assms(1), unfolded d1])
      show ?thesis
      proof (cases "transport m = Ntfy")
        case True
        then have "pc ?s1 = Publishing m" by simp
        from publishing_runs [OF this, where X = X and cfg = cfg and pub = pub and env = env and send = send] True Inr p Some show ?thesis
          by (intro ends_at_silent [OF st0] ends_at_silent [OF st]) simp_all
      next
        case False
        then have "pc ?s1 = Texting m" by simp
        from texting_runs [OF this, where X = X and cfg = cfg and env = env and send = send] False Inr p Some show ?thesis
          by (intro ends_at_silent [OF st0] ends_at_silent [OF st]) simp_all
      qed
    qed
  qed
qed

lemma send_iteration_runs:
  assumes "pc s = AtTop"
  shows "ends_at X cfg s (send_iteration cfg (x_bind X) pub send env (current s))"
proof -
  let ?s = "s\<lparr>pc := Requeuing (current s)\<rparr>"
  have st0: "relay_step X cfg s ?s" by (rule requeue_read [OF assms])
  show ?thesis
  proof (cases "requeue_stuck cfg (e_now_cutoff env) (e_requeue_due env) (e_requeue_flush env) (current s) (current s)")
    case (Inl e)
    have "ends_at X cfg ?s ([], current s)"
      by (rule ends_at_silent [OF requeue_error [of ?s "current s" cfg "e_now_cutoff env" "e_requeue_due env" "e_requeue_flush env" e]])
         (use Inl ends_at_top [of "?s\<lparr>pc := AtTop\<rparr>" X cfg] in simp_all)
    with Inl show ?thesis by (intro ends_at_silent [OF st0]) (simp_all add: send_iteration_def)
  next
    case (Inr d1)
    let ?s1 = "(advance d1 ?s)\<lparr>pc := AtClaim\<rparr>"
    have st: "relay_step X cfg ?s ?s1"
      by (rule requeue_commit [of ?s "current s" cfg "e_now_cutoff env" "e_requeue_due env" "e_requeue_flush env"])
         (use Inr in simp_all)
    have "pc ?s1 = AtClaim" "current ?s1 = d1" by simp_all
    from claiming_runs [OF this, where X = X and cfg = cfg and env = env and pub = pub and send = send] Inr
    show ?thesis
      by (intro ends_at_silent [OF st0] ends_at_silent [OF st]) (simp_all add: send_iteration_eq)
  qed
qed

end
