(* ===== verification/Safety.thy ===== *)
theory Safety
  imports SendLoop
begin

section \<open>What holds of every run of the service\<close>

text \<open>
  The properties of reachable states: what the tables satisfy at any time, however handlers,
  loops and crashes interleave, and what the calls made so far satisfy.
\<close>

lemma reachable_steps: "relay_steps X cfg s s' \<Longrightarrow> relay_reachable X cfg s \<Longrightarrow> relay_reachable X cfg s'"
  by (induction rule: rtranclp_induct) (auto intro: relay_reachable.step)

lemma seen_grows: "relay_step X cfg s s' \<Longrightarrow> seen s \<subseteq> seen s'"
  by (induction rule: relay_step.induct) (auto simp: seen_def advance_def)

lemma seen_grows_steps: "relay_steps X cfg s s' \<Longrightarrow> seen s \<subseteq> seen s'"
  by (induction rule: rtranclp_induct) (use seen_grows in blast)+

subsection \<open>A sample run\<close>

text \<open>
  For the witnesses: a message routed to ntfy, whose publication fails and which then goes
  out as an SMS.
\<close>

definition sample_externals :: "string externals" where
  "sample_externals =
     \<lparr>x_lib = sample_lib, x_re_search = (\<lambda>_ _. Inr True), x_hmac = (\<lambda>_ _. ''5a''),
      x_loads = (\<lambda>_. Inl JSONDecodeError), x_fromiso = (\<lambda>_. None), x_isoformat = (\<lambda>_. []),
      x_bind = (\<lambda>_. Inl (OtherException []))\<rparr>"

definition ntfy_message :: message where
  "ntfy_message = sample_message\<lparr>transport := Ntfy, notification_topic := Some ''oncall''\<rparr>"

definition ntfy_db :: database where
  "ntfy_db = \<lparr>messages = [ntfy_message], deliveries = []\<rparr>"

definition sample_env :: send_env where
  "sample_env =
     \<lparr>e_now_cutoff = 5, e_requeue_due = (\<lambda>_. 5), e_requeue_flush = (\<lambda>_. 5), e_now_claim = 5,
      e_claim_flush = (\<lambda>_. 5), e_now_publish = 6, e_publish_flush = (\<lambda>_. 6), e_now_send = 7, e_send_flush = (\<lambda>_. 7)\<rparr>"

definition sample_iteration :: "effect list \<times> database" where
  "sample_iteration =
     send_iteration sample_config (x_bind sample_externals) (\<lambda>_. Inl (HTTPError ''down''))
       (\<lambda>_ _. Inr (JStr ''g1'')) sample_env ntfy_db"

lemma sample_iteration_calls: "fst sample_iteration = [CallNtfy ''m1'', CallSms ''m1'']"
  by code_simp

lemma sample_iteration_rows:
  "map mid (messages (snd sample_iteration)) = [''m1''] \<and> map status (messages (snd sample_iteration)) = [SENT] \<and>
   map attempts (messages (snd sample_iteration)) = [1] \<and> map transport (messages (snd sample_iteration)) = [SmsFallback]"
  by code_simp

lemma ntfy_db_startable: "startable sample_config ntfy_db"
  by (simp add: startable_def tables_ok_def ntfy_db_def ntfy_message_def db_ok_defs
       row_ok_def active_def attempt_limit_def sample_row less_max_iff_disj le_max_iff_disj)

lemma sample_run:
  obtains s where "relay_reachable sample_externals sample_config s" "relay_steps sample_externals sample_config (start ntfy_db) s"
    "pc s = AtTop" "calls s = [CallSms ''m1'', CallNtfy ''m1'']" "current s = snd sample_iteration"
proof -
  have "ends_at sample_externals sample_config (start ntfy_db) sample_iteration"
    using send_iteration_runs [of "start ntfy_db" sample_externals sample_config] by (simp add: start_def sample_iteration_def)
  then obtain s where s: "relay_steps sample_externals sample_config (start ntfy_db) s" "pc s = AtTop"
    "current s = snd sample_iteration" "calls s = rev (fst sample_iteration) @ calls (start ntfy_db)"
    by (auto simp: ends_at_def)
  moreover have "relay_reachable sample_externals sample_config s"
    using reachable_steps [OF s(1)] relay_reachable.init [OF ntfy_db_startable] by blast
  ultimately show thesis using that by (simp add: sample_iteration_calls start_def)
qed

subsection \<open>Properties\<close>

text \<open>
  C1. The tables are consistent in every state the service can reach, whatever handlers and
  loops interleave and wherever it crashes: ids and idempotency keys are unique, deliveries
  refer to stored messages, a queued or sending message is outbound and has no provider id,
  attempts stay between zero and the maximum, and only ntfy messages are published.
\<close>

theorem rows_stay_consistent:
  assumes "relay_reachable X cfg s"
  shows "db_ok (current s) \<and>
    (\<forall>m \<in> set (messages (current s)).
       (status m \<in> {QUEUED, SENDING} \<longrightarrow> direction m = OUTBOUND \<and> provider_message_id m = None) \<and>
       0 \<le> attempts m \<and> attempts m \<le> max 1 (max_attempts cfg) \<and>
       (status m = PUBLISHED \<longrightarrow> transport m = Ntfy))"
  using reachable_inv [OF assms]
  by (auto simp: relay_inv_def tables_ok_def row_ok_def active_def attempt_limit_def)

theorem rows_stay_consistent_witness:
  "\<exists>s. relay_reachable sample_externals sample_config s \<and> calls s = [CallSms ''m1'', CallNtfy ''m1''] \<and> db_ok (current s)"
  using sample_run rows_stay_consistent by metis


lemma sample_publishing:
  assumes init: "P (start ntfy_db)"
    and step: "\<And>s s'. P s \<Longrightarrow> held (pc s) = None \<Longrightarrow> relay_step sample_externals sample_config s s' \<Longrightarrow> P s'"
  obtains s m where "P s" "pc s = Publishing m" "mid m = ''m1''" "updated_at m = 5"
proof -
  let ?s0 = "start ntfy_db"
  let ?s1 = "?s0\<lparr>pc := Requeuing ntfy_db\<rparr>"
  have r1: "P ?s1" using step [OF init _ requeue_read] by (simp add: start_def)
  let ?s2 = "(advance ntfy_db ?s1)\<lparr>pc := AtClaim\<rparr>"
  have "requeue_stuck sample_config 5 (\<lambda>_. 5) (\<lambda>_. 5) ntfy_db ntfy_db = Inr ntfy_db"
    by (simp add: requeue_stuck_def ntfy_db_def is_stuck_def ntfy_message_def sample_row)
  then have r2: "P ?s2" by (intro step [OF r1 _ requeue_commit [of ?s1 ntfy_db]]) (simp_all add: start_def)
  let ?s3 = "?s2\<lparr>pc := Claiming ntfy_db\<rparr>"
  have r3: "P ?s3" using step [OF r2 _ claim_read] by simp
  have "is_due 5 ntfy_message" "mid ntfy_message = ''m1''" "transport ntfy_message = Ntfy"
    by (simp_all add: is_due_def ntfy_message_def sample_row)
  moreover have "updated_at (claimed 5 5 ntfy_message) = 5" by (simp add: claimed_def message_changes_def ntfy_message_def sample_row)
  moreover have "db_ok ntfy_db" using ntfy_db_startable by (simp add: startable_def tables_ok_def)
  ultimately obtain d where "claim_next 5 (\<lambda>_. 5) ntfy_db ntfy_db = Inr (Some (claimed 5 5 ntfy_message), d)"
    "transport (claimed 5 5 ntfy_message) = Ntfy" "mid (claimed 5 5 ntfy_message) = ''m1''" "updated_at (claimed 5 5 ntfy_message) = 5"
    using commit_one [of ntfy_db ntfy_message "ntfy_message\<lparr>status := SENDING, updated_at := 5\<rparr>" "\<lambda>_. 5"]
    by (auto simp: claim_next_def ntfy_db_def)
  then show thesis
    using that step [OF r3 _ claim_some [of ?s3 ntfy_db 5 "\<lambda>_. 5" "claimed 5 5 ntfy_message" d]] by simp
qed


text \<open>
  C3. Attempts are real and bounded, and a published message is never texted: in every
  reachable state a message's attempt count is at most the number of times its SMS was handed
  to the provider, and a message still routed to ntfy, published ones included, was never
  handed over.
\<close>

theorem attempts_are_real:
  assumes "relay_reachable X cfg s" and "m \<in> set (messages (current s))"
  shows "attempts m \<le> sms_calls s (mid m) \<and> attempts m \<le> max 1 (max_attempts cfg) \<and>
    (transport m = Ntfy \<longrightarrow> sms_calls s (mid m) = 0) \<and> (status m = PUBLISHED \<longrightarrow> sms_calls s (mid m) = 0)"
  using reachable_inv [OF assms(1)] assms(2)
  by (auto simp: relay_inv_def calls_ok_def tables_ok_def row_ok_def attempt_limit_def)

theorem attempts_are_real_witness:
  "\<exists>s m. relay_reachable sample_externals sample_config s \<and> m \<in> set (messages (current s)) \<and>
     attempts m = 1 \<and> 1 \<le> sms_calls s (mid m)"
proof -
  obtain s where s: "relay_reachable sample_externals sample_config s" "current s = snd sample_iteration"
    by (rule sample_run)
  obtain m where m: "messages (snd sample_iteration) = [m]" "attempts m = 1"
    using sample_iteration_rows by (cases "messages (snd sample_iteration)") auto
  then have "m \<in> set (messages (current s))" using s(2) by simp
  then show ?thesis using attempts_are_real [OF s(1)] s(1) m(2) by metis
qed

text \<open>The calls, newest first: none to ntfy for a message after one to the provider.\<close>

fun one_way :: "effect list \<Rightarrow> bool" where
  "one_way [] = True"
| "one_way (CallNtfy i # cs) \<longleftrightarrow> CallSms i \<notin> set cs \<and> one_way cs"
| "one_way (CallSms i # cs) \<longleftrightarrow> one_way cs"

lemma one_way_step: "relay_step X cfg s s' \<Longrightarrow> relay_inv cfg s \<Longrightarrow> one_way (calls s) \<Longrightarrow> one_way (calls s')"
proof (induction rule: relay_step.induct)
  case (publish_ok s m receipt now)
  then show ?case by (simp add: publishing_not_texted)
next
  case (publish_failed s m e)
  then show ?case by (simp add: publishing_not_texted)
next
  case (publish_raised s m e)
  then show ?case by (simp add: publishing_not_texted)
qed simp_all

lemma one_way_append: "one_way (xs @ CallNtfy i # ys) \<Longrightarrow> CallSms i \<notin> set ys"
  by (induction xs rule: one_way.induct) auto

text \<open>
  C4. The switch to SMS is final: in no run is a message published to ntfy after it was
  handed to the SMS provider, whatever was retried or restarted in between.
\<close>

theorem fallback_is_final:
  assumes "relay_reachable X cfg s" and "calls s = later @ CallNtfy i # earlier"
  shows "CallSms i \<notin> set earlier"
proof -
  have "one_way (calls s)" using assms(1)
    by (induction rule: relay_reachable.induct) (auto simp: start_def intro: one_way_step reachable_inv)
  then show ?thesis using assms(2) one_way_append by metis
qed

theorem fallback_is_final_witness:
  "\<exists>s. relay_reachable sample_externals sample_config s \<and> calls s = [CallSms ''m1''] @ CallNtfy ''m1'' # [] \<and>
     CallSms ''m1'' \<notin> set []"
proof -
  obtain s where s: "relay_reachable sample_externals sample_config s" "calls s = [CallSms ''m1''] @ CallNtfy ''m1'' # []"
    using sample_run by (metis append_Cons append_Nil)
  from fallback_is_final [OF this] s show ?thesis by blast
qed



end
