(* ===== verification/Drain.thy ===== *)
theory Drain
  imports Safety
begin

section \<open>The send loop over many iterations (worker.py, send_loop)\<close>

text \<open>
  \<open>send_loop\<close> repeats \<open>send_iteration\<close> until the stop event is seen: a run is a list of
  turns, each with its readings of the clock and what ntfy and the provider answer then. The
  lemmas say what one turn does to the row of the oldest due message, as \<open>put_row\<close>; the
  property is that a run empties the queue, oldest message first.
\<close>

type_synonym turn = "send_env \<times> (message \<Rightarrow> string res) \<times> (string \<Rightarrow> string \<Rightarrow> json res)"

fun send_loop ::
  "config \<Rightarrow> (json \<Rightarrow> string res) \<Rightarrow> turn list \<Rightarrow> database \<Rightarrow> effect list \<times> database"
where
  "send_loop cfg bind_other [] db = ([], db)"
| "send_loop cfg bind_other ((env, pub, send) # turns) db =
     (let (now, db1) = send_iteration cfg bind_other pub send env db;
          (later, db2) = send_loop cfg bind_other turns db1
      in (now @ later, db2))"

definition in_queue :: "message \<Rightarrow> bool" where
  "in_queue m \<longleftrightarrow> direction m = OUTBOUND \<and> status m = QUEUED"

text \<open>The queue as the claim sees it: oldest first, ties in table order.\<close>

definition queue :: "database \<Rightarrow> message list" where
  "queue db = sort_key created_at (filter in_queue (messages db))"

definition none_sending :: "database \<Rightarrow> bool" where
  "none_sending db \<longleftrightarrow> (\<forall>m \<in> set (messages db). status m \<noteq> SENDING)"

text \<open>A turn with answers: the provider takes the message or refuses it for good, and ntfy's failures are ones the loop falls back on.\<close>

definition decisive :: "turn \<Rightarrow> bool" where
  "decisive turn =
     (case turn of (env, pub, send) \<Rightarrow>
        (\<forall>m e. pub m = Inl e \<longrightarrow> publish_error e) \<and>
        (\<forall>n b. (\<exists>i. send n b = Inr (JStr i)) \<or> (\<exists>msg. send n b = Inl (ProviderError msg True))))"

primrec call_id :: "effect \<Rightarrow> string" where
  "call_id (CallNtfy i) = i"
| "call_id (CallSms i) = i"

subsection \<open>One row replaced\<close>

definition put_row :: "message \<Rightarrow> database \<Rightarrow> database" where
  "put_row w db = db\<lparr>messages := map (\<lambda>r. if mid r = mid w then w else r) (messages db)\<rparr>"

lemma put_row_put_row [simp]: "mid w2 = mid w1 \<Longrightarrow> put_row w2 (put_row w1 db) = put_row w2 db"
  by (simp add: put_row_def comp_def if_distrib cong: if_cong)

lemma put_row_mem: "m \<in> set (messages db) \<Longrightarrow> mid w = mid m \<Longrightarrow> w \<in> set (messages (put_row w db))"
  by (auto simp: put_row_def image_iff)

lemma put_row_mids: "map mid (messages (put_row w db)) = map mid (messages db)"
  by (simp add: put_row_def)

lemma put_row_origin: "r \<in> set (messages (put_row w db)) \<Longrightarrow> r = w \<or> r \<in> set (messages db)"
  by (auto simp: put_row_def split: if_splits)

lemma commit_put:
  assumes "db_ok db" and "m \<in> set (messages db)" and "mid m' = mid m" "m' \<noteq> m"
    and "service m' = service m" "idempotency_key m' = idempotency_key m"
  shows "commit_messages t [(m, m')] db = Inr (put_row (message_changes (t (mid m)) m m' m) db)"
    and "db_ok (put_row (message_changes (t (mid m)) m m' m) db)"
proof -
  have f: "find_row mid (mid m) (messages db) = Some m"
    by (rule msg.find_distinct [OF db_ok_distinct [OF assms(1)] assms(2)])
  have "update_row mid (mid m) (message_changes (t (mid m)) m m') (messages db) =
      messages (put_row (message_changes (t (mid m)) m m' m) db)"
    using assms(2) db_ok_distinct [OF assms(1)] by (auto simp: update_row_def put_row_def dest: distinct_map_eqD)
  then show c: "commit_messages t [(m, m')] db = Inr (put_row (message_changes (t (mid m)) m m' m) db)"
    using f assms(4) by (simp add: commit_messages_def put_row_def)
  show "db_ok (put_row (message_changes (t (mid m)) m m' m) db)"
    using commit_messages_ok [OF c assms(1)] assms(5,6) by simp
qed

lemma queue_distinct: "db_ok db \<Longrightarrow> distinct (map mid (queue db))"
  using distinct_map_filter [OF db_ok_distinct, of db in_queue] by (simp add: queue_def distinct_map)

lemma filter_replaced:
  "\<not> P w \<Longrightarrow> filter P (map (\<lambda>r. if mid r = mid w then w else r) rs) = filter (\<lambda>r. mid r \<noteq> mid w) (filter P rs)"
  by (induction rs) auto

text \<open>Replacing the oldest queued row by a settled one takes it from the queue.\<close>

lemma queue_put_row:
  assumes "db_ok db" and q: "queue db = m # ms" and w: "mid w = mid m" "\<not> in_queue w"
  shows "queue (put_row w db) = ms"
proof -
  have "filter in_queue (messages (put_row w db)) = filter (\<lambda>r. mid r \<noteq> mid m) (filter in_queue (messages db))"
    using w filter_replaced [where w = w] by (simp add: put_row_def)
  then have "queue (put_row w db) = filter (\<lambda>r. mid r \<noteq> mid m) (queue db)"
    by (simp add: queue_def filter_sort)
  moreover have "distinct (map mid (queue db))" by (rule queue_distinct [OF assms(1)])
  ultimately show ?thesis unfolding q by (auto simp: filter_id_conv rev_image_eqI)
qed

subsection \<open>One turn\<close>

text \<open>What holds of the row a turn leaves and the calls it makes, for the message it took.\<close>

definition turn_done :: "(message \<Rightarrow> bool) \<Rightarrow> message \<Rightarrow> database \<Rightarrow> effect list \<times> database \<Rightarrow> bool" where
  "turn_done Q m db r \<longleftrightarrow>
     (\<exists>w. snd r = put_row w db \<and> mid w = mid m \<and> Q w \<and> db_ok (snd r)) \<and>
     fst r \<noteq> [] \<and> call_id ` set (fst r) \<subseteq> {mid m}"

text \<open>
  The provider answers the message: its outcome is stored, and is as \<open>Q\<close> says whenever the
  row's own clock is set.
\<close>

definition sms_outcome ::
  "config \<Rightarrow> (json \<Rightarrow> string res) \<Rightarrow> (string \<Rightarrow> string \<Rightarrow> json res) \<Rightarrow> send_env \<Rightarrow> (message \<Rightarrow> bool) \<Rightarrow> message \<Rightarrow> bool"
where
  "sms_outcome cfg bind_other send env Q m \<longleftrightarrow>
     (\<exists>m'. after_send cfg bind_other (send (case to_number m of None \<Rightarrow> [] | Some n \<Rightarrow> n) (body m)) (e_now_send env) m = Inr m' \<and>
        (\<forall>t. Q (m'\<lparr>updated_at := t\<rparr>)))"

lemma after_send_frame:
  assumes "after_send cfg bind_other result now m = Inr m'"
  shows "mid m' = mid m" "service m' = service m" "idempotency_key m' = idempotency_key m" "updated_at m' = updated_at m"
    "attempts m' = attempts m + 1"
  using assms by (auto simp: after_send_def sent_def send_failure_def Let_def res_simps split: sum.splits exn.splits if_splits)

lemma send_sms_done:
  assumes "db_ok db" and "m \<in> set (messages db)" and "sms_outcome cfg bind_other send env Q m"
  shows "turn_done Q m db (send_sms cfg bind_other send env m db)"
proof -
  obtain m' where m': "after_send cfg bind_other (send (case to_number m of None \<Rightarrow> [] | Some n \<Rightarrow> n) (body m)) (e_now_send env) m = Inr m'"
    and Q: "\<And>t. Q (m'\<lparr>updated_at := t\<rparr>)" using assms(3) by (auto simp: sms_outcome_def)
  note st = after_send_frame [OF m']
  have "m' \<noteq> m" using st(5) by auto
  note c = commit_put [OF assms(1,2) st(1) this st(2,3), of "e_send_flush env"]
  have "message_changes (e_send_flush env (mid m)) m m' m = m'\<lparr>updated_at := e_send_flush env (mid m)\<rparr>"
    using st by (simp add: message_changes_self)
  with c st m' Q show ?thesis
    by (auto simp: turn_done_def send_sms_def intro!: exI [of _ "m'\<lparr>updated_at := e_send_flush env (mid m)\<rparr>"])
qed

lemma turn_done_put:
  "turn_done Q m (put_row w db) r \<Longrightarrow> mid w = mid m \<Longrightarrow> turn_done Q m db r"
  by (auto simp: turn_done_def)

lemma turn_done_Cons:
  "turn_done Q m db r \<Longrightarrow> call_id e = mid m \<Longrightarrow> turn_done Q m db (e # fst r, snd r)"
  by (auto simp: turn_done_def)

text \<open>What a turn keeps of the message it takes, up to the call of the provider.\<close>

definition same_text :: "message \<Rightarrow> message \<Rightarrow> bool" where
  "same_text m w \<longleftrightarrow> mid w = mid m \<and> to_number w = to_number m \<and> body w = body m \<and>
     attempts w = attempts m \<and> direction w = direction m"

lemma published_or_texted_done:
  assumes db: "db_ok db" and m: "m \<in> set (messages db)" "status m = SENDING" "transport m = Ntfy"
    and pub: "\<And>e. pub m = Inl e \<Longrightarrow> publish_error e"
    and published: "\<And>w. same_text m w \<Longrightarrow> status w = PUBLISHED \<Longrightarrow> Q w"
    and texted: "\<And>w. same_text m w \<Longrightarrow> sms_outcome cfg bind_other send env Q w"
  shows "turn_done Q m db (published_or_texted cfg bind_other pub send env m db)"
proof (cases "pub m")
  case (Inr receipt)
  let ?m = "published receipt (e_now_publish env) m"
  have p: "mid ?m = mid m" "service ?m = service m" "idempotency_key ?m = idempotency_key m" "status ?m = PUBLISHED"
    "updated_at ?m = updated_at m"
    by (simp_all add: row_simps)
  then have "?m \<noteq> m" using m(2) by auto
  note c = commit_put [OF db m(1) p(1) this p(2,3), of "e_publish_flush env"]
  have "message_changes (e_publish_flush env (mid m)) m ?m m = ?m\<lparr>updated_at := e_publish_flush env (mid m)\<rparr>"
    using p by (simp add: message_changes_self)
  moreover have "Q (?m\<lparr>updated_at := e_publish_flush env (mid m)\<rparr>)"
    by (rule published) (simp_all add: same_text_def published_def)
  ultimately show ?thesis using c p Inr
    by (auto simp: turn_done_def published_or_texted_def intro!: exI [of _ "?m\<lparr>updated_at := e_publish_flush env (mid m)\<rparr>"])
next
  case (Inl e)
  have p: "mid (fall_back m) = mid m" "service (fall_back m) = service m" "idempotency_key (fall_back m) = idempotency_key m"
    "transport (fall_back m) = SmsFallback" "updated_at (fall_back m) = updated_at m"
    by (simp_all add: row_simps)
  then have "fall_back m \<noteq> m" using m(3) by auto
  note c = commit_put [OF db m(1) p(1) this p(2,3), of "e_publish_flush env"]
  define w where "w = message_changes (e_publish_flush env (mid m)) m (fall_back m) m"
  have w: "same_text m w" "mid w = mid m"
    using p by (simp_all add: w_def message_changes_self same_text_def fall_back_def)
  have "turn_done Q w (put_row w db) (send_sms cfg bind_other send env w (put_row w db))"
    using c(2) w m(1) by (intro send_sms_done texted) (auto simp: w_def [symmetric] intro: put_row_mem)
  then have "turn_done Q m (put_row w db) (send_sms cfg bind_other send env w (put_row w db))"
    using w(2) by (simp add: turn_done_def)
  then have "turn_done Q m db (send_sms cfg bind_other send env w (put_row w db))"
    using turn_done_put w(2) by blast
  from turn_done_Cons [OF this, of "CallNtfy (mid m)"] c(1) pub Inl show ?thesis
    by (simp add: published_or_texted_def w_def [symmetric] Let_def)
qed

lemma requeue_nothing: "none_sending db \<Longrightarrow> requeue_stuck cfg now due t db db = Inr db"
  by (auto simp: requeue_stuck_def none_sending_def is_stuck_def filter_empty_conv)

lemma claim_oldest:
  assumes db: "db_ok db" and q: "queue db = m # ms" and due: "\<forall>r \<in> set (queue db). is_due now r"
  shows "claim_next now t db db = Inr (Some (claimed now (t (mid m)) m), put_row (claimed now (t (mid m)) m) db) \<and>
    db_ok (put_row (claimed now (t (mid m)) m) db) \<and> m \<in> set (messages db) \<and> in_queue m"
proof -
  have "is_due now r \<longleftrightarrow> in_queue r" if "r \<in> set (messages db)" for r
    using due that by (auto simp: queue_def in_queue_def is_due_def)
  then have "filter (is_due now) (messages db) = filter in_queue (messages db)" by (rule filter_cong [OF refl])
  then have xs: "sort_key created_at (filter (is_due now) (messages db)) = m # ms" using q by (simp add: queue_def)
  have "m \<in> set (queue db)" by (simp add: q)
  then have m: "m \<in> set (messages db)" "in_queue m" by (simp_all add: queue_def)
  let ?m = "m\<lparr>status := SENDING, updated_at := now\<rparr>"
  have "status ?m \<noteq> status m" using m(2) by (simp add: in_queue_def)
  then have "?m \<noteq> m" by metis
  from commit_put [OF db m(1) _ this, of t] m xs show ?thesis
    by (simp add: claim_next_def message_changes_claimed)
qed

lemma turn_takes_oldest:
  assumes db: "db_ok db" and quiet: "none_sending db" and q: "queue db = m # ms"
    and due: "\<forall>r \<in> set (queue db). is_due (e_now_claim env) r"
    and pub: "\<And>m e. pub m = Inl e \<Longrightarrow> publish_error e"
    and published: "\<And>w. same_text m w \<Longrightarrow> status w = PUBLISHED \<Longrightarrow> Q w"
    and texted: "\<And>w. same_text m w \<Longrightarrow> sms_outcome cfg bind_other send env Q w"
  shows "turn_done Q m db (send_iteration cfg bind_other pub send env db)"
proof -
  let ?w = "claimed (e_now_claim env) (e_claim_flush env (mid m)) m"
  note c = claim_oldest [OF db q due, of "e_claim_flush env"]
  have w: "db_ok (put_row ?w db)" "?w \<in> set (messages (put_row ?w db))" "status ?w = SENDING" "mid ?w = mid m"
    using c by (auto intro: put_row_mem)
  have same: "same_text ?w x \<Longrightarrow> same_text m x" for x by (simp add: same_text_def)
  have "turn_done Q ?w (put_row ?w db) (send_iteration cfg bind_other pub send env db)"
  proof (cases "transport ?w = Ntfy")
    case True
    have "turn_done Q ?w (put_row ?w db) (published_or_texted cfg bind_other pub send env ?w (put_row ?w db))"
      by (rule published_or_texted_done [OF w(1-3) True pub published [OF same] texted [OF same]])
    with True c show ?thesis by (simp add: send_iteration_eq requeue_nothing [OF quiet])
  next
    case False
    have "turn_done Q ?w (put_row ?w db) (send_sms cfg bind_other send env ?w (put_row ?w db))"
      by (intro send_sms_done texted w(1,2)) (simp add: same_text_def)
    with False c show ?thesis by (simp add: send_iteration_eq requeue_nothing [OF quiet])
  qed
  then show ?thesis using turn_done_put w(4) by (auto simp: turn_done_def)
qed

lemma turn_settles_oldest:
  assumes "db_ok db" "none_sending db" "queue db = m # ms" "\<forall>r \<in> set (queue db). is_due (e_now_claim env) r"
    and dec: "decisive (env, pub, send)"
  shows "turn_done (\<lambda>w. status w \<in> {SENT, PUBLISHED, FAILED}) m db (send_iteration cfg bind_other pub send env db)"
proof (rule turn_takes_oldest [OF assms(1-4)])
  show "sms_outcome cfg bind_other send env (\<lambda>w. status w \<in> {SENT, PUBLISHED, FAILED}) w" for w
    using dec unfolding decisive_def prod.case sms_outcome_def
    by (elim conjE allE [of _ "case to_number w of None \<Rightarrow> [] | Some n \<Rightarrow> n"] allE [of _ "body w"])
      (auto simp: after_send_def bind_id_def sent_def send_failure_def Let_def)
qed (use dec in \<open>auto simp: decisive_def\<close>)

lemma turn_idle:
  assumes "none_sending db" and "queue db = []"
  shows "send_iteration cfg bind_other pub send env db = ([], db)"
proof -
  have "filter (is_due (e_now_claim env)) (messages db) = []"
    using arg_cong [OF assms(2), of set] by (auto simp: queue_def in_queue_def is_due_def filter_empty_conv)
  then show ?thesis
    by (simp add: send_iteration_eq requeue_nothing [OF assms(1)] claim_next_def)
qed

lemma remdups_adj_block:
  "xs \<noteq> [] \<Longrightarrow> set xs \<subseteq> {a} \<Longrightarrow> a \<notin> set ys \<Longrightarrow> remdups_adj (xs @ ys) = a # remdups_adj ys"
proof (induction xs rule: induct_list012)
  case (2 x)
  then show ?case by (cases ys) auto
qed auto

subsection \<open>Properties\<close>


definition two_queued :: database where
  "two_queued = \<lparr>messages = [sample_message\<lparr>mid := ''m2'', created_at := 3\<rparr>, ntfy_message], deliveries = []\<rparr>"


end
