(* ===== verification/Fanout.thy ===== *)
theory Fanout
  imports Worker
begin

section \<open>One iteration of the fan-out loop (worker.py, fanout_loop)\<close>

text \<open>
  What \<open>fanout_iteration\<close> with the code's \<open>deliver\<close> does to the delivery rows: the batch it
  takes, the outcome of each attempt, and that the batch is committed as a whole.
\<close>

definition due_batch :: "instant \<Rightarrow> database \<Rightarrow> delivery list" where
  "due_batch now db = take 20 (sort_key d_created_at (filter (delivery_due now) (deliveries db)))"

text \<open>The batch: due rows, each once, and none older left out.\<close>

lemma due_batch_rows:
  assumes "db_ok db"
  shows "set (due_batch now db) \<subseteq> set (deliveries db)" and "distinct (map d_id (due_batch now db))"
    and "d \<in> set (due_batch now db) \<Longrightarrow> delivery_due now d"
proof -
  let ?xs = "sort_key d_created_at (filter (delivery_due now) (deliveries db))"
  have sub: "set (due_batch now db) \<subseteq> set ?xs" unfolding due_batch_def by (rule set_take_subset)
  then show "set (due_batch now db) \<subseteq> set (deliveries db)" by auto
  show "delivery_due now d" if "d \<in> set (due_batch now db)" using that sub by auto
  have "distinct (map d_id (filter (delivery_due now) (deliveries db)))"
    using assms by (simp add: db_ok_def deliveries_ok_def distinct_map_filter)
  then have "distinct (map d_id ?xs)" by (simp add: distinct_map)
  then show "distinct (map d_id (due_batch now db))" by (simp add: due_batch_def take_map [symmetric])
qed

lemma due_batch_oldest:
  assumes "e \<in> set (deliveries db)" "delivery_due now e" "e \<notin> set (due_batch now db)"
  shows "length (due_batch now db) = 20 \<and> (\<forall>d \<in> set (due_batch now db). d_created_at d \<le> d_created_at e)"
proof -
  define xs where "xs = sort_key d_created_at (filter (delivery_due now) (deliveries db))"
  have b: "due_batch now db = take 20 xs" by (simp add: due_batch_def xs_def)
  have "e \<in> set xs" using assms(1,2) by (simp add: xs_def)
  then have e: "e \<in> set (drop 20 xs)" using assms(3) unfolding b by (metis Un_iff append_take_drop_id set_append)
  then have "20 < length xs" by (metis drop_all empty_iff empty_set leI)
  moreover have "sorted (map d_created_at (take 20 xs @ drop 20 xs))" by (simp add: xs_def)
  then have "\<forall>d \<in> set (take 20 xs). d_created_at d \<le> d_created_at e"
    using e unfolding map_append sorted_append by auto
  ultimately show ?thesis unfolding b by simp
qed

text \<open>An attempt always changes its row: it counts, or it cancels a pending row.\<close>

lemma deliver_changes_row:
  assumes "deliver hmac isoformat net configured tn d m = Inr d'" and "d_status d = Pending"
  shows "d' \<noteq> d" and "d_id d' = d_id d" and "d_updated_at d' = d_updated_at d"
proof -
  from assms have "d_status d' = Cancelled \<or> d_attempts d' = d_attempts d + 1"
    by (auto elim!: deliver_cases simp: failed_attempt_def)
  then show "d' \<noteq> d" using assms(2) by auto
  show "d_id d' = d_id d" "d_updated_at d' = d_updated_at d"
    using deliver_frame [OF assms(1)] by simp_all
qed

text \<open>Every delivery row has its message, so the loop's cancelling branch is for rows deleted meanwhile.\<close>

lemma delivery_has_message:
  assumes "db_ok db" "d \<in> set (deliveries db)"
  obtains m where "get_message_row (d_message_id d) db = Some m" "m \<in> set (messages db)" "mid m = d_message_id d"
    "\<forall>m'. m' \<in> set (messages db) \<and> mid m' = d_message_id d \<longleftrightarrow> m' = m"
proof -
  have "d_message_id d \<in> set (map mid (messages db))"
    using assms by (simp add: db_ok_def deliveries_ok_def list_all_iff)
  then obtain m where m: "m \<in> set (messages db)" "mid m = d_message_id d" by auto
  have "m' \<in> set (messages db) \<and> mid m' = d_message_id d \<longleftrightarrow> m' = m" for m'
    using m distinct_map_eqD [OF db_ok_distinct [OF assms(1)]] by metis
  moreover have "get_message_row (d_message_id d) db = Some m"
    using msg.find_distinct [OF db_ok_distinct [OF assms(1)] m(1)] m(2) by (simp add: get_message_row_def)
  ultimately show thesis using m by (intro that [of m]) blast+
qed

lemma fanout_pairs:
  assumes "mapR (fanout_one attempt db) due = Inr ps"
  shows "map fst ps = due" and "q \<in> set ps \<Longrightarrow> fanout_one attempt db (fst q) = Inr q"
proof -
  have one: "fanout_one attempt db d = Inr q \<Longrightarrow> fst q = d" for d q
    by (auto simp: fanout_one_def res_simps split: option.splits)
  have l: "list_all2 (\<lambda>d q. fanout_one attempt db d = Inr q) due ps"
    using assms by (simp add: mapR_Inr_iff)
  then show "map fst ps = due" by (induction rule: list_all2_induct) (auto simp: one)
  show "fanout_one attempt db (fst q) = Inr q" if "q \<in> set ps"
    using mapR_mem [OF assms that] one by metis
qed

lemma fanout_one_iff:
  assumes "db_ok db" and "d \<in> set (deliveries db)"
  shows "fanout_one attempt db d = r \<longleftrightarrow>
    (\<exists>m. m \<in> set (messages db) \<and> mid m = d_message_id d \<and> rbind (attempt d m) (\<lambda>d'. Inr (d, d')) = r)"
proof -
  from delivery_has_message [OF assms] obtain m where "get_message_row (d_message_id d) db = Some m"
    "\<forall>m'. m' \<in> set (messages db) \<and> mid m' = d_message_id d \<longleftrightarrow> m' = m" by metis
  then show ?thesis by (simp add: fanout_one_def conj_assoc [symmetric])
qed

text \<open>The outcome recorded for a row of the batch.\<close>

definition recorded ::
  "(delivery \<Rightarrow> message \<Rightarrow> delivery res) \<Rightarrow> (string \<Rightarrow> instant) \<Rightarrow> database \<Rightarrow> delivery \<Rightarrow> delivery \<Rightarrow> bool"
where
  "recorded attempt t db d d2 \<longleftrightarrow>
     (\<exists>m d'. m \<in> set (messages db) \<and> mid m = d_message_id d \<and> attempt d m = Inr d' \<and>
        d2 = d'\<lparr>d_updated_at := t (d_id d)\<rparr>)"

lemma pair_recorded:
  assumes "db_ok db" and q: "fanout_one attempt db (fst q) = Inr q" and d: "fst q \<in> set (deliveries db)" "d_status (fst q) = Pending"
    and changes: "\<And>d m d'. attempt d m = Inr d' \<Longrightarrow> d_status d = Pending \<Longrightarrow> d' \<noteq> d \<and> d_id d' = d_id d \<and> d_updated_at d' = d_updated_at d"
  shows "recorded attempt t db (fst q) d2 \<longleftrightarrow> d2 = del.written t q"
proof -
  obtain m where m: "m \<in> set (messages db)" "mid m = d_message_id (fst q)" "attempt (fst q) m = Inr (snd q)"
    using q fanout_one_iff [OF assms(1) d(1), of attempt "Inr q"] by (auto simp: res_simps prod_eq_iff)
  from changes [OF m(3) d(2)] have w: "del.written t q = (snd q)\<lparr>d_updated_at := t (d_id (fst q))\<rparr>"
    by (simp add: del.written_def delivery_changes_self)
  have uniq: "m' = m" if "m' \<in> set (messages db)" "mid m' = d_message_id (fst q)" for m'
    using that m distinct_map_eqD [OF db_ok_distinct [OF assms(1)]] by metis
  show ?thesis
  proof
    assume "recorded attempt t db (fst q) d2"
    then obtain m' d' where m': "m' \<in> set (messages db)" "mid m' = d_message_id (fst q)" "attempt (fst q) m' = Inr d'"
      "d2 = d'\<lparr>d_updated_at := t (d_id (fst q))\<rparr>" by (auto simp: recorded_def)
    with uniq [OF m'(1,2)] m(3) show "d2 = del.written t q" by (simp add: w)
  next
    assume "d2 = del.written t q"
    with m show "recorded attempt t db (fst q) d2" unfolding recorded_def w by blast
  qed
qed

lemma batch_recorded:
  assumes db: "db_ok db" and ps: "mapR (fanout_one attempt db) (due_batch now db) = Inr ps"
    and changes: "\<And>d m d'. attempt d m = Inr d' \<Longrightarrow> d_status d = Pending \<Longrightarrow> d' \<noteq> d \<and> d_id d' = d_id d \<and> d_updated_at d' = d_updated_at d"
  shows "\<exists>db2. fanout_iteration attempt now t db db = db2 \<and> messages db2 = messages db \<and>
    set (deliveries db2) = set (deliveries db) - set (due_batch now db) \<union>
      {d2. \<exists>d \<in> set (due_batch now db). recorded attempt t db d d2}"
proof -
  note pairs = fanout_pairs [OF ps] and batch = due_batch_rows [OF db]
  have set_ps: "fst ` set ps = set (due_batch now db)" using pairs(1) by (metis list.set_map)
  have "map d_id (map fst ps) = map d_id (due_batch now db)" by (simp only: pairs(1))
  then have dist: "distinct (map (\<lambda>q. d_id (fst q)) ps)" using batch(2) by (simp add: comp_def)
  have ids: "(\<lambda>q. d_id (fst q)) ` set ps = d_id ` set (due_batch now db)"
    unfolding set_ps [symmetric] by (simp add: image_image)
  have mem: "\<forall>q \<in> set ps. fst q \<in> set (deliveries db)" using set_ps batch(1) by blast
  obtain db2 where db2: "commit_deliveries t ps db = Inr db2" "messages db2 = messages db"
    "set (deliveries db2) = {d \<in> set (deliveries db). d_id d \<notin> d_id ` set (due_batch now db)} \<union> del.written t ` set ps"
    using commit_deliveries_owned [OF db dist mem, of t] unfolding ids by blast
  have "fanout_iteration attempt now t db db = db2"
    using ps db2(1) by (auto simp: fanout_iteration_def due_batch_def Let_def commit_deliveries_def)
  moreover have "{d \<in> set (deliveries db). d_id d \<notin> d_id ` set (due_batch now db)} = set (deliveries db) - set (due_batch now db)"
    using batch(1) db by (auto simp: db_ok_def deliveries_ok_def dest: distinct_map_eqD)
  moreover have rec: "recorded attempt t db (fst q) d2 \<longleftrightarrow> d2 = del.written t q" if q: "q \<in> set ps" for q d2
  proof -
    have "fst q \<in> set (due_batch now db)" using q set_ps by blast
    then have "d_status (fst q) = Pending" using batch(3) by (auto simp: delivery_due_def)
    then show ?thesis using mem q changes by (intro pair_recorded [OF db pairs(2)]) auto
  qed
  have "del.written t ` set ps = {d2. \<exists>d \<in> set (due_batch now db). recorded attempt t db d d2}"
    unfolding set_ps [symmetric] using rec by auto
  ultimately show ?thesis using db2(2,3) by simp
qed

lemma batch_raises:
  assumes db: "db_ok db"
  shows "(\<exists>e. mapR (fanout_one attempt db) (due_batch now db) = Inl e) \<longleftrightarrow>
    (\<exists>d m e. d \<in> set (due_batch now db) \<and> m \<in> set (messages db) \<and> mid m = d_message_id d \<and> attempt d m = Inl e)"
proof -
  have one: "(\<exists>e. fanout_one attempt db d = Inl e) \<longleftrightarrow> (\<exists>m e. m \<in> set (messages db) \<and> mid m = d_message_id d \<and> attempt d m = Inl e)"
    if "d \<in> set (due_batch now db)" for d
    using fanout_one_iff [OF db, of d attempt] due_batch_rows(1) [OF db] that by (fastforce simp: res_simps)
  then show ?thesis unfolding mapR_Inl_iff by blast
qed

subsection \<open>Properties\<close>

text \<open>
  C28. An iteration of the fan-out loop attempts the due deliveries, the twenty oldest if
  there are more, and records exactly the outcome of each attempt; it changes no message and
  no other delivery. It is all or nothing: if one attempt raises something other than an
  HTTP error, nothing of the batch is recorded.
\<close>

theorem fanout_batch:
  assumes "db_ok db"
  shows "let attempt = (\<lambda>d m. deliver hmac isoformat net configured (tn (d_id d)) d m);
      it = fanout_iteration attempt now t db db; batch = due_batch now db
    in messages it = messages db \<and>
      (if \<exists>d m e. d \<in> set batch \<and> m \<in> set (messages db) \<and> mid m = d_message_id d \<and> attempt d m = Inl e
       then it = db
       else set (deliveries it) = set (deliveries db) - set batch \<union>
         {d2. \<exists>d \<in> set batch. \<exists>m d'. m \<in> set (messages db) \<and> mid m = d_message_id d \<and>
            attempt d m = Inr d' \<and> d2 = d'\<lparr>d_updated_at := t (d_id d)\<rparr>}) \<and>
      (\<forall>d \<in> set batch. d \<in> set (deliveries db) \<and> delivery_due now d) \<and>
      (\<forall>e \<in> set (deliveries db). delivery_due now e \<and> e \<notin> set batch \<longrightarrow>
         length batch = 20 \<and> (\<forall>d \<in> set batch. d_created_at d \<le> d_created_at e))"
proof -
  define attempt where "attempt = (\<lambda>d m. deliver hmac isoformat net configured (tn (d_id d)) d m)"
  let ?it = "fanout_iteration attempt now t db db" and ?batch = "due_batch now db"
  let ?raises = "\<exists>d m e. d \<in> set ?batch \<and> m \<in> set (messages db) \<and> mid m = d_message_id d \<and> attempt d m = Inl e"
  have "messages ?it = messages db \<and> (if ?raises then ?it = db
    else set (deliveries ?it) = set (deliveries db) - set ?batch \<union> {d2. \<exists>d \<in> set ?batch. recorded attempt t db d d2})"
  proof (cases "mapR (fanout_one attempt db) ?batch")
    case (Inl e)
    then have ?raises using batch_raises [OF assms, of attempt now] by blast
    moreover have "?it = db" using Inl by (simp add: fanout_iteration_def due_batch_def Let_def)
    ultimately show ?thesis by simp
  next
    case (Inr ps)
    then have "\<not> ?raises" using batch_raises [OF assms, of attempt now] by simp
    moreover have "d' \<noteq> d \<and> d_id d' = d_id d \<and> d_updated_at d' = d_updated_at d"
      if "attempt d m = Inr d'" "d_status d = Pending" for d m d'
      using deliver_changes_row [of hmac isoformat net configured "tn (d_id d)" d m d'] that by (simp add: attempt_def)
    ultimately show ?thesis using batch_recorded [OF assms Inr, of t] by auto
  qed
  then show ?thesis
    unfolding Let_def attempt_def [symmetric] recorded_def
    using due_batch_rows [OF assms, where now = now] due_batch_oldest [where db = db and now = now] by auto
qed

definition fanout_db :: database where
  "fanout_db =
     \<lparr>messages = [sample_message],
      deliveries = [(new_delivery ''d1'' 0 0)\<lparr>d_message_id := ''m1'', d_subscriber := ''app''\<rparr>,
                    (new_delivery ''d2'' 0 0)\<lparr>d_message_id := ''m1'', d_subscriber := ''other'', d_status := Failed\<rparr>]\<rparr>"

definition accepting :: "http_request \<Rightarrow> response res" where
  "accepting req = Inr \<lparr>status_code = 200, resp_text = [], resp_json = None\<rparr>"

theorem fanout_batch_witness:
  "\<exists>it. it = fanout_iteration (\<lambda>d m. deliver (\<lambda>_ _. []) (\<lambda>_. []) accepting (Inr [sample_subscriber]) 5 d m) 5 (\<lambda>_. 5) fanout_db fanout_db \<and>
     messages it = messages fanout_db \<and> d_status ` set (deliveries it) = {Failed, Delivered}"
proof -
  let ?d1 = "(new_delivery ''d1'' 0 0)\<lparr>d_message_id := ''m1'', d_subscriber := ''app''\<rparr>"
  let ?d2 = "(new_delivery ''d2'' 0 0)\<lparr>d_message_id := ''m1'', d_subscriber := ''other'', d_status := Failed\<rparr>"
  let ?attempt = "\<lambda>d m. deliver (\<lambda>_ _. []) (\<lambda>_. []) accepting (Inr [sample_subscriber]) 5 d m"
  have ok: "db_ok fanout_db" by (simp add: fanout_db_def db_ok_defs sample_row new_delivery_def)
  have rows: "set (deliveries fanout_db) = {?d1, ?d2}" "set (messages fanout_db) = {sample_message}"
    by (simp_all add: fanout_db_def)
  have batch: "set (due_batch 5 fanout_db) = {?d1}" "?d1 \<noteq> ?d2"
    by (simp_all add: due_batch_def fanout_db_def delivery_due_def new_delivery_def)
  have out: "?attempt ?d1 sample_message = Inr (?d1\<lparr>d_attempts := 1, d_response_code := Some 200, d_status := Delivered\<rparr>)"
    by (simp add: deliver_def find_subscriber_def sample_subscriber_def accepting_def new_delivery_def)
  have "mid sample_message = d_message_id ?d1" by (simp add: sample_row new_delivery_def)
  with fanout_batch [OF ok, of "\<lambda>_ _. []" "\<lambda>_. []" accepting "Inr [sample_subscriber]" "\<lambda>_. 5" 5 "\<lambda>_. 5"]
  show ?thesis
    by (auto simp: Let_def rows batch out)
qed

end
