(* ===== verification/Grafana.thy ===== *)
theory Grafana
  imports Outbound
begin

section \<open>The Grafana webhook (routes/grafana.py)\<close>

text \<open>
  One webhook of up to a hundred alerts becomes one message, with an idempotency key that
  depends on the set of incidents only. Parameters: \<open>sha\<close> (SHA-256 of ASCII text, in hex),
  \<open>loads\<close> (\<open>json.loads\<close> of the body's bytes), \<open>fromiso\<close> (\<open>datetime.fromisoformat\<close>: wall
  clock and UTC offset) and \<open>now i\<close>, the reading of \<open>time.time()\<close> for the i-th alert.
\<close>

type_synonym incident = "string \<times> string \<times> string \<times> int"  \<comment> \<open>fingerprint, startsAt, state, reminder\<close>
type_synonym entry = "incident \<times> string \<times> int"  \<comment> \<open>incident, text, priority\<close>

fun read_body :: "string \<Rightarrow> string list \<Rightarrow> string res" where
  "read_body acc [] = Inr acc"
| "read_body acc (chunk # chunks) =
     (if length (acc @ chunk) > 65536 then Inl (HTTPException 413 ''payload too large'')
      else read_body (acc @ chunk) chunks)"

definition affected_by :: "string list \<Rightarrow> (string \<times> json) list \<Rightarrow> string" where
  "affected_by names labels =
     join '', ''
       (map (\<lambda>l. l @ ''='' @ py_str (jget labels l)) (filter (\<lambda>l. truthy (jget labels l)) names))"

definition affected :: "(string \<times> json) list \<Rightarrow> string" where
  "affected labels =
     (let a = affected_by
                [''app'', ''checks'', ''node'', ''namespace'', ''persistentvolumeclaim'',
                 ''job_name'', ''cronjob'', ''service''] labels
      in if a = [] then affected_by [''instance'', ''pod''] labels else a)"

definition reminder_bucket :: "instant \<Rightarrow> instant \<Rightarrow> int" where
  "reminder_bucket now started = max 0 ((now - started) div seconds 14400)"

definition alert_priority :: "bool \<Rightarrow> bool \<Rightarrow> int" where
  "alert_priority critical firing =
     (if critical then (if firing then 4 else 3) else (if firing then 3 else 1))"

definition alert_text :: "bool \<Rightarrow> string \<Rightarrow> string \<Rightarrow> string \<Rightarrow> string" where
  "alert_text firing alert_name summary aff =
     ''['' @ (if firing then ''FIRING'' else ''RESOLVED'') @ ''] '' @ alert_name @ '': '' @
     (if firing then summary else ''Alert condition cleared.'') @
     (if aff = [] then [] else CHR 0x0A # aff)"

definition started_at :: "(string \<Rightarrow> (instant \<times> int option) option) \<Rightarrow> string \<Rightarrow> instant res" where
  "started_at fromiso starts =
     (case fromiso (replace_Z starts) of
        Some (wall, Some off) \<Rightarrow> Inr (wall - off)
      | _ \<Rightarrow> Inl (ValueError ''startsAt''))"

definition alert_entry ::
  "(string \<Rightarrow> (instant \<times> int option) option) \<Rightarrow> instant \<Rightarrow> json \<Rightarrow> entry res"
where
  "alert_entry fromiso now alert =
     (let a = the_dict alert
      in if \<not> is_dict alert \<or> \<not> is_dict (jget a ''labels'') \<or> \<not> is_dict (jget_or a ''annotations'' (JObj []))
         then Inl (ValueError ''alert'')
         else
           rbind (jindex alert ''status'') (\<lambda>state.
           if state \<noteq> JStr ''firing'' \<and> state \<noteq> JStr ''resolved'' then Inl (ValueError ''status'')
           else
             let labels = the_dict (jget a ''labels'');
                 firing = (state = JStr ''firing'')
             in rbind (jindex (jget a ''labels'') ''alertname'') (\<lambda>name.
                let summary = jget_or (the_dict (jget_or a ''annotations'' (JObj []))) ''summary'' name
                in rbind (jindex alert ''fingerprint'') (\<lambda>fingerprint.
                   rbind (jindex alert ''startsAt'') (\<lambda>starts.
                   if \<not> list_all (\<lambda>x. is_str x \<and> truthy x) [name, summary, fingerprint, starts]
                   then Inl (ValueError ''alert'')
                   else
                     rbind (started_at fromiso (the_str starts)) (\<lambda>started.
                       Inr ((the_str fingerprint, the_str starts, the_str state,
                             if firing then reminder_bucket now started else 0),
                            take 1800 (alert_text firing (the_str name) (the_str summary) (affected labels)),
                            alert_priority (jget labels ''severity'' = JStr ''critical'') firing)))))))"

definition incident_json :: "incident \<Rightarrow> json" where
  "incident_json i =
     (case i of (fp, starts, state, r) \<Rightarrow> JList [JStr fp, JStr starts, JStr state, JInt r])"

text \<open>\<open>entries.sort(key=lambda x: (-x[2], x[0]))\<close>, by tuples and lists in lexicographic order.\<close>

definition sort_entries :: "entry list \<Rightarrow> entry list" where
  "sort_entries es = sort_key (\<lambda>(i, _, p). (- p, i)) es"

definition dedup_text :: "incident list \<Rightarrow> string" where
  "dedup_text is = dumps '', '' '': '' (JList (map incident_json is))"

definition group_key :: "(string \<Rightarrow> string) \<Rightarrow> entry list \<Rightarrow> string" where
  "group_key sha es = ''grafana-group-'' @ sha (dedup_text (map fst es))"

text \<open>\<open>used\<close> is the sum over the lines taken of their length and two.\<close>

fun take_lines :: "nat \<Rightarrow> string list \<Rightarrow> string list" where
  "take_lines used [] = []"
| "take_lines used (t # ts) =
     (if used + length t > 3800 then [] else t # take_lines (used + (length t + 2)) ts)"

definition group_text :: "entry list \<Rightarrow> string" where
  "group_text es =
     (let lines = take_lines 0 (map (\<lambda>(_, t, _). t) es);
          text = join [CHR 0x0A, CHR 0x0A] lines
      in if length lines < length es
         then text @ [CHR 0x0A, CHR 0x0A] @ dec_nat (length es - length lines) @
              '' additional alerts; see Grafana.''
         else text)"

definition recipients_of_json :: "json \<Rightarrow> recipients res" where
  "recipients_of_json v =
     (case v of
        JStr s \<Rightarrow> Inr (One s)
      | JList xs \<Rightarrow> if list_all is_str xs then Inr (Many (map the_str xs)) else Inl (ValueError ''to'')
      | _ \<Rightarrow> Inl (ValueError ''to''))"

definition group_request :: "(string \<Rightarrow> string) \<Rightarrow> json \<Rightarrow> entry list \<Rightarrow> send_request res" where
  "group_request sha route es =
     rbind (jindex route ''to'') (\<lambda>to_v.
     rbind (recipients_of_json to_v) (\<lambda>to_r.
       let r = \<lparr>sr_to = to_r, sr_body = group_text es,
                sr_priority = Max (set (map (\<lambda>(_, _, p). p) es)), sr_key = Some (group_key sha es)\<rparr>
       in if send_request_valid r then Inr r else Inl (ValueError ''validation error'')))"

definition alerts_of :: "json \<Rightarrow> json list res" where
  "alerts_of data =
     rbind (jindex data ''alerts'') (\<lambda>alerts.
       case alerts of
         JList xs \<Rightarrow> if 1 \<le> length xs \<and> length xs \<le> 100 then Inr xs else Inl (ValueError ''alerts'')
       | _ \<Rightarrow> Inl (ValueError ''alerts''))"

definition entries_of ::
  "(string \<Rightarrow> (instant \<times> int option) option) \<Rightarrow> (nat \<Rightarrow> instant) \<Rightarrow> json list \<Rightarrow> entry list res"
where
  "entries_of fromiso now alerts =
     rbind (mapR (\<lambda>(i, a). alert_entry fromiso (now i) a) (enumerate 0 alerts))
       (\<lambda>es. Inr (sort_entries es))"

definition build_request ::
  "(string \<Rightarrow> string) \<Rightarrow> (string \<Rightarrow> json res) \<Rightarrow> (string \<Rightarrow> (instant \<times> int option) option) \<Rightarrow>
   (nat \<Rightarrow> instant) \<Rightarrow> json \<Rightarrow> string \<Rightarrow> (send_request \<times> nat) res"
where
  "build_request sha loads fromiso now route raw =
     rbind (loads raw) (\<lambda>data.
     rbind (alerts_of data) (\<lambda>alerts.
     rbind (entries_of fromiso now alerts) (\<lambda>es.
     rbind (group_request sha route es) (\<lambda>r. Inr (r, length es)))))"

text \<open>\<open>except (KeyError, TypeError, ValueError)\<close> around all of the above.\<close>

definition as_bad_request :: "'a res \<Rightarrow> 'a res" where
  "as_bad_request m =
     (case m of
        Inl e \<Rightarrow> if is_KeyError e \<or> is_TypeError e \<or> is_ValueError e
                 then Inl (HTTPException 400 ''invalid Grafana webhook'') else Inl e
      | Inr x \<Rightarrow> Inr x)"

definition grafana_prepare ::
  "(string \<Rightarrow> string) \<Rightarrow> (string \<Rightarrow> json res) \<Rightarrow> (string \<Rightarrow> (instant \<times> int option) option) \<Rightarrow>
   (nat \<Rightarrow> instant) \<Rightarrow> config \<Rightarrow> string \<Rightarrow> string list \<Rightarrow> (send_request \<times> nat) res"
where
  "grafana_prepare sha loads fromiso now cfg svc chunks =
     (if svc \<noteq> ''grafana'' then Inl (HTTPException 403 ''Grafana credential required'')
      else
        let route = jget (notification_routes cfg) svc
        in if \<not> truthy route then Inl (HTTPException 503 ''Grafana notifications not configured'')
           else rbind (read_body [] chunks) (\<lambda>raw.
                  as_bad_request (build_request sha loads fromiso now route raw)))"

definition grafana ::
  "(string \<Rightarrow> string) \<Rightarrow> (string \<Rightarrow> json res) \<Rightarrow> (string \<Rightarrow> (instant \<times> int option) option) \<Rightarrow>
   (nat \<Rightarrow> instant) \<Rightarrow> 'n phonelib \<Rightarrow> (string \<Rightarrow> string \<Rightarrow> bool res) \<Rightarrow> config \<Rightarrow> string \<Rightarrow> string list \<Rightarrow>
   (nat \<Rightarrow> row_seed) \<Rightarrow> database \<Rightarrow> database \<Rightarrow> database \<Rightarrow> (nat \<times> nat) res \<times> database"
where
  "grafana sha loads fromiso now lib re_search cfg svc chunks fresh db0 db1 db2 =
     (case grafana_prepare sha loads fromiso now cfg svc chunks of
        Inl e \<Rightarrow> (Inl e, db1)
      | Inr (r, accepted) \<Rightarrow>
          (case send_message lib re_search cfg r svc fresh db0 db1 db2 of
             (Inl e, db') \<Rightarrow> (Inl e, db')
           | (Inr _, db') \<Rightarrow> (Inr (accepted, 1), db')))"

subsection \<open>The text of a group\<close>

lemma join_Cons: "join sep (x # xs) = x @ concat (map (\<lambda>y. sep @ y) xs)"
proof (induction xs arbitrary: x)
  case (Cons y ys)
  then show ?case by simp
qed simp

lemma take_lines_bound:
  "used \<le> 3802 \<Longrightarrow> used + sum_list (map (\<lambda>s. length s + 2) (take_lines used ts)) \<le> 3802"
  by (induction used ts rule: take_lines.induct) auto

lemma length_take_lines_join:
  "length (join [CHR 0x0A, CHR 0x0A] (take_lines 0 ts)) \<le> 3800"
proof (cases "take_lines 0 ts = []")
  case False
  then show ?thesis
    using length_join [OF False, of "[CHR 0x0A, CHR 0x0A]"] take_lines_bound [of 0 ts] by simp
qed simp

lemma length_dec_nat_100: "n \<le> 100 \<Longrightarrow> length (dec_nat n) \<le> 3"
  by (rule length_dec_nat) simp_all

subsection \<open>Sorting makes the group's key independent of the order of alerts\<close>

definition entry_rank :: "entry \<Rightarrow> int \<times> incident" where
  "entry_rank e = (- snd (snd e), fst e)"

lemma sort_entries_rank: "sort_entries es = sort_key entry_rank es"
proof -
  have "(\<lambda>(i, _, p). (- p, i)) = entry_rank" by (simp add: fun_eq_iff entry_rank_def)
  then show ?thesis by (simp add: sort_entries_def)
qed

lemma sort_entries_perm:
  assumes "mset es = mset es'"
  shows "map fst (sort_entries es) = map fst (sort_entries es')"
proof -
  have "map fst xs = map snd (map entry_rank xs)" for xs
    by (simp add: entry_rank_def)
  then show ?thesis
    using sort_key_perm_keys [OF assms, of entry_rank] by (simp only: sort_entries_rank)
qed

subsection \<open>Properties\<close>

lemma read_body_acc:
  "length acc \<le> 65536 \<Longrightarrow>
   read_body acc chunks =
     (if length (acc @ concat chunks) \<le> 65536 then Inr (acc @ concat chunks)
      else Inl (HTTPException 413 ''payload too large''))"
  by (induction acc chunks rule: read_body.induct) auto

text \<open>
  The size limit does not depend on how the body is cut into chunks: a body of at most
  65536 bytes is read whole and in order, and any other is refused with 413.
\<close>

lemma read_body_limit:
  "read_body [] chunks =
     (if length (concat chunks) \<le> 65536 then Inr (concat chunks)
      else Inl (HTTPException 413 ''payload too large''))"
  by (simp add: read_body_acc)

lemma alert_entry_shape:
  assumes "alert_entry fromiso now a = Inr (i, t, p)"
  shows "t \<noteq> [] \<and> length t \<le> 1800 \<and> p \<in> {1, 3, 4}"
proof -
  have "\<exists>firing name summary aff critical.
      t = take 1800 (alert_text firing name summary aff) \<and> p = alert_priority critical firing"
    using assms unfolding alert_entry_def Let_def
    by (auto simp only: rbind_Inr_iff sum.inject prod.inject sum.distinct split: if_split_asm) blast+
  then obtain firing name summary aff critical where
    "t = take 1800 (alert_text firing name summary aff)" "p = alert_priority critical firing" by blast
  then show ?thesis by (simp add: alert_text_def alert_priority_def)
qed

lemma entries_of_shape:
  assumes "entries_of fromiso now alerts = Inr es"
  shows "length es = length alerts" and "e \<in> set es \<Longrightarrow> fst (snd e) \<noteq> [] \<and> length (fst (snd e)) \<le> 1800 \<and> snd (snd e) \<in> {1, 3, 4}"
proof -
  obtain xs where xs: "mapR (\<lambda>(i, a). alert_entry fromiso (now i) a) (enumerate 0 alerts) = Inr xs" "es = sort_entries xs"
    using assms by (auto simp: entries_of_def res_simps)
  show "length es = length alerts" using mapR_length [OF xs(1)] by (simp add: xs(2) sort_entries_def)
  assume "e \<in> set es"
  then have "e \<in> set xs" by (simp add: xs(2) sort_entries_def)
  then obtain x where "(case x of (i, a) \<Rightarrow> alert_entry fromiso (now i) a) = Inr e" using mapR_mem [OF xs(1)] by blast
  then obtain i a where "alert_entry fromiso (now i) a = Inr e" by (cases x) auto
  then show "fst (snd e) \<noteq> [] \<and> length (fst (snd e)) \<le> 1800 \<and> snd (snd e) \<in> {1, 3, 4}"
    using alert_entry_shape [of fromiso "now i" a "fst e" "fst (snd e)" "snd (snd e)"] by simp
qed

lemma group_text_bounds:
  assumes "es \<noteq> []" and "length es \<le> 100" and "\<forall>e \<in> set es. fst (snd e) \<noteq> [] \<and> length (fst (snd e)) \<le> 1800"
  shows "1 \<le> length (group_text es) \<and> length (group_text es) \<le> 3837"
proof -
  define ts where "ts = map (\<lambda>(_, t, _). t) es"
  define lines where "lines = take_lines 0 ts"
  have len: "length (join [CHR 0x0A, CHR 0x0A] lines) \<le> 3800"
    by (simp add: lines_def length_take_lines_join)
  have "length (dec_nat (length es - length lines)) \<le> 3"
    using assms(2) by (intro length_dec_nat_100) simp
  moreover have "group_text es = (if length lines < length es
      then join [CHR 0x0A, CHR 0x0A] lines @ [CHR 0x0A, CHR 0x0A] @ dec_nat (length es - length lines) @
           '' additional alerts; see Grafana.''
      else join [CHR 0x0A, CHR 0x0A] lines)"
    by (simp add: group_text_def lines_def ts_def Let_def)
  moreover obtain e es' where es: "es = e # es'" using assms(1) by (cases es) auto
  moreover from this have "lines = fst (snd e) # take_lines (length (fst (snd e)) + 2) (tl ts)"
    using assms(3) by (cases e) (auto simp: lines_def ts_def)
  then have "1 \<le> length (join [CHR 0x0A, CHR 0x0A] lines)"
    using assms(3) es by (simp add: join_Cons Suc_le_eq)
  ultimately show ?thesis using len by simp
qed

text \<open>
  C33. A group of well-formed alerts is never refused for its size: for one to a hundred
  alerts that parse, the message built for the route's recipient satisfies every constraint
  of a send request. Its text has 1 to 3837 characters however long the alerts are, its
  priority is 1, 3 or 4, and it has an idempotency key that is not empty.
\<close>

theorem group_request_fits:
  assumes "entries_of fromiso now alerts = Inr es" and "1 \<le> length alerts" "length alerts \<le> 100"
    and "\<forall>t. length (sha t) = 64" and "map_of route ''to'' = Some (JStr owner)"
  shows "\<exists>r. group_request sha (JObj route) es = Inr r \<and> send_request_valid r \<and> sr_to r = One owner \<and>
    length es = length alerts \<and> length (sr_body r) \<le> 3837 \<and> sr_priority r \<in> {1, 3, 4} \<and> has_key r"
proof -
  note shape = entries_of_shape [OF assms(1)]
  have ne: "es \<noteq> []" "length es \<le> 100" using shape(1) assms(2,3) by auto
  have b: "1 \<le> length (group_text es) \<and> length (group_text es) \<le> 3837"
    using shape(2) by (intro group_text_bounds [OF ne]) simp
  define p where "p = Max (set (map (\<lambda>(_, _, p). p) es))"
  have "p \<in> set (map (\<lambda>(_, _, p). p) es)" unfolding p_def by (rule Max_in) (use ne in auto)
  then obtain e where "e \<in> set es" "p = snd (snd e)" by auto
  then have p: "p \<in> {1, 3, 4}" using shape(2) by metis
  have k: "length (group_key sha es) = 78" using assms(4) by (simp add: group_key_def)
  let ?r = "\<lparr>sr_to = One owner, sr_body = group_text es, sr_priority = p, sr_key = Some (group_key sha es)\<rparr>"
  have v: "send_request_valid ?r" using b p k by (auto simp: send_request_valid_def)
  then have "group_request sha (JObj route) es = Inr ?r"
    using assms(5) by (simp add: group_request_def recipients_of_json_def Let_def p_def)
  moreover have "has_key ?r" using k by (auto simp: has_key_def)
  ultimately show ?thesis using v b p shape(1) by (intro exI [of _ ?r]) simp
qed

theorem group_request_fits_witness:
  "\<exists>r. group_request (\<lambda>_. replicate 64 CHR ''0'') (JObj [(''to'', JStr ''+1555'')])
        [((''f'', ''2024'', ''firing'', 0), ''[FIRING] Down: Down'', 3)] = Inr r \<and> send_request_valid r"
proof -
  have "entries_of (\<lambda>_. Some (0, Some 0)) (\<lambda>_. 5)
      [JObj [(''status'', JStr ''firing''), (''labels'', JObj [(''alertname'', JStr ''Down'')]),
             (''fingerprint'', JStr ''f''), (''startsAt'', JStr ''2024'')]] =
      Inr [((''f'', ''2024'', ''firing'', 0), ''[FIRING] Down: Down'', 3)]"
    by code_simp
  from group_request_fits [OF this, of "\<lambda>_. replicate 64 CHR ''0''" "[(''to'', JStr ''+1555'')]" "''+1555''"]
  show ?thesis by auto
qed

subsection \<open>What the parser can raise\<close>

text \<open>The exceptions that the route turns into a 400.\<close>

definition caught :: "exn \<Rightarrow> bool" where
  "caught e \<longleftrightarrow> is_KeyError e \<or> is_TypeError e \<or> is_ValueError e"

definition raises_caught :: "'a res \<Rightarrow> bool" where
  "raises_caught m \<longleftrightarrow> (\<forall>e. m = Inl e \<longrightarrow> caught e)"

named_theorems caught_intros \<open>rules that follow the structure of the parser\<close>

lemma raises_caught_basic [caught_intros]:
  "raises_caught (Inr x)" "raises_caught (Inl (ValueError msg))" "raises_caught (jindex v k)"
  by (cases "(v, k)" rule: jindex.cases; auto simp: raises_caught_def caught_def split: option.splits)+

lemma raises_caught_rbind [caught_intros]:
  "raises_caught m \<Longrightarrow> (\<And>x. raises_caught (f x)) \<Longrightarrow> raises_caught (rbind m f)"
  by (auto simp: raises_caught_def rbind_Inl_iff)

lemma raises_caught_if [caught_intros]:
  "raises_caught m \<Longrightarrow> raises_caught m' \<Longrightarrow> raises_caught (if b then m else m')"
  by simp

lemma raises_caught_mapR [caught_intros]: "(\<And>x. raises_caught (f x)) \<Longrightarrow> raises_caught (mapR f xs)"
  by (auto simp: raises_caught_def dest!: mapR_Inl)

lemma started_at_caught [caught_intros]: "raises_caught (started_at fromiso starts)"
  by (simp add: started_at_def raises_caught_basic split: option.split prod.split)

lemma alert_entry_caught [caught_intros]: "raises_caught (alert_entry fromiso now a)"
  unfolding alert_entry_def Let_def by (intro caught_intros)

lemma entries_of_caught [caught_intros]: "raises_caught (entries_of fromiso now alerts)"
  unfolding entries_of_def split_def by (intro caught_intros)

lemma recipients_of_json_caught [caught_intros]: "raises_caught (recipients_of_json v)"
  by (cases v) (simp_all add: recipients_of_json_def raises_caught_basic)

lemma group_request_caught [caught_intros]: "raises_caught (group_request sha route es)"
  unfolding group_request_def Let_def by (intro caught_intros)

lemma alerts_of_caught [caught_intros]: "raises_caught (alerts_of data)"
  unfolding alerts_of_def by (intro caught_intros) (simp split: json.split add: raises_caught_basic)

lemma build_request_caught:
  assumes "build_request sha loads fromiso now route raw = Inl e"
  shows "loads raw = Inl e \<or> caught e"
proof (cases "loads raw")
  case (Inr data)
  have "raises_caught (build_request sha (\<lambda>_. Inr data) fromiso now route raw)"
    unfolding build_request_def by (intro caught_intros)
  moreover have "build_request sha (\<lambda>_. Inr data) fromiso now route raw = Inl e"
    using assms Inr by (simp add: build_request_def)
  ultimately show ?thesis by (simp add: raises_caught_def)
qed (use assms in \<open>simp add: build_request_def\<close>)

lemma alerts_of_Inr: "alerts_of data = Inr alerts \<Longrightarrow> 1 \<le> length alerts \<and> length alerts \<le> 100"
  unfolding alerts_of_def rbind_Inr_iff by (elim exE conjE) (simp split: json.split_asm if_split_asm)

lemma build_request_Inr:
  assumes "build_request sha loads fromiso now route raw = Inr (r, n)"
  shows "send_request_valid r \<and> has_key r \<and> 1 \<le> n \<and> n \<le> 100"
proof -
  obtain data alerts es where a: "alerts_of data = Inr alerts" and e: "entries_of fromiso now alerts = Inr es"
    and g: "group_request sha route es = Inr r" and n: "n = length es"
    using assms by (auto simp: build_request_def rbind_Inr_iff)
  have "send_request_valid r \<and> has_key r"
    using g by (auto simp: group_request_def rbind_Inr_iff Let_def has_key_def group_key_def split: if_splits)
  then show ?thesis using entries_of_shape(1) [OF e] alerts_of_Inr [OF a] by (simp add: n)
qed

text \<open>
  C34. The webhook's parser is total and typed: whatever the body, cut into whatever chunks,
  is, and whatever the route is configured to, its outcome is a request that satisfies every
  constraint of the send API and has an idempotency key, for 1 to 100 alerts of a body within
  the limit and a caller that is Grafana, or one of the answers 400, 403, 413 and 503. Only an exception of
  the JSON decoder that is none of KeyError, TypeError and ValueError can leave it.
\<close>

theorem grafana_parser_typed:
  shows "case grafana_prepare sha loads fromiso now cfg svc chunks of
      Inr (r, n) \<Rightarrow> send_request_valid r \<and> has_key r \<and> 1 \<le> n \<and> n \<le> 100 \<and>
        svc = ''grafana'' \<and> length (concat chunks) \<le> 65536
    | Inl e \<Rightarrow> (\<exists>msg. e \<in> (\<lambda>code. HTTPException code msg) ` {400, 403, 413, 503}) \<or>
        loads (concat chunks) = Inl e \<and> \<not> caught e"
proof (cases "grafana_prepare sha loads fromiso now cfg svc chunks")
  case (Inr rn)
  then obtain r n where "build_request sha loads fromiso now (jget (notification_routes cfg) svc) (concat chunks) = Inr (r, n)"
    "rn = (r, n)" "svc = ''grafana''" "length (concat chunks) \<le> 65536"
    by (cases rn) (auto simp: grafana_prepare_def read_body_limit as_bad_request_def Let_def split: if_splits sum.splits)
  with build_request_Inr Inr show ?thesis by auto
next
  case (Inl e)
  then show ?thesis
    by (auto simp: grafana_prepare_def read_body_limit as_bad_request_def Let_def caught_def
        split: if_splits sum.splits dest!: build_request_caught)
qed

end
