(* ===== verification/JsonText.thy ===== *)
theory JsonText
  imports Grafana Webhooks
begin

section \<open>The JSON the relay prints can be read back\<close>

text \<open>
  \<open>json.dumps\<close> is used where equality of texts must mean equality of contents: the key of a
  Grafana group, and the payload a subscriber's signature covers. Printed strings and
  numbers are prefix codes, so both are injective.
\<close>

lemma codepoint_inj [simp]: "codepoint c = codepoint c' \<longleftrightarrow> c = c'"
  by (simp add: codepoint_def)

lemma codepoint_less: "codepoint c < 256"
  unfolding codepoint_def by (metis of_char_mod_256 mod_less_divisor zero_less_numeral)

lemma hexd_inj: "a < 16 \<Longrightarrow> b < 16 \<Longrightarrow> hexd a = hexd b \<longleftrightarrow> a = b"
proof -
  assume ab: "a < 16" "b < 16"
  have "codepoint (hexd n) = (if n < 10 then 48 + n else 87 + n)" if "n < 16" for n
    using that by (simp add: hexd_def codepoint_def)
  then have "hexd a = hexd b \<longleftrightarrow>
      (if a < 10 then 48 + a else 87 + a) = (if b < 10 then 48 + b else 87 + b)"
    using ab by (metis codepoint_inj)
  with ab show ?thesis by (auto split: if_splits)
qed

lemma hex2_inj: "a < 256 \<Longrightarrow> b < 256 \<Longrightarrow> hex2 a = hex2 b \<longleftrightarrow> a = b"
proof -
  assume "a < 256" "b < 256"
  then have "hex2 a = hex2 b \<longleftrightarrow> a div 16 = b div 16 \<and> a mod 16 = b mod 16"
    by (simp add: hex2_def hexd_inj less_mult_imp_div_less)
  then show ?thesis by (metis div_mult_mod_eq)
qed

definition needs_escape :: "char \<Rightarrow> bool" where
  "needs_escape c \<longleftrightarrow> c = CHR 0x22 \<or> c = CHR 0x5C \<or> codepoint c < 32 \<or> 126 < codepoint c"

text \<open>What follows the backslash.\<close>

definition esc_tail :: "char \<Rightarrow> string" where
  "esc_tail c = tl (esc_char c)"

lemma esc_char_cases:
  "esc_char c = (if needs_escape c then CHR 0x5C # esc_tail c else [c])"
  by (auto simp: esc_char_def esc_tail_def needs_escape_def codepoint_def)

lemma esc_char_hd: "esc_char c \<noteq> [] \<and> hd (esc_char c) \<noteq> CHR 0x22"
  by (auto simp: esc_char_cases needs_escape_def)

lemma esc_tail_code:
  assumes "needs_escape c"
  shows "esc_tail c =
    (if codepoint c = 34 then [CHR 0x22] else if codepoint c = 92 then [CHR 0x5C]
     else if codepoint c = 10 then [CHR ''n''] else if codepoint c = 13 then [CHR ''r'']
     else if codepoint c = 9 then [CHR ''t''] else if codepoint c = 12 then [CHR ''f'']
     else if codepoint c = 8 then [CHR ''b'']
     else CHR ''u'' # CHR ''0'' # CHR ''0'' # hex2 (codepoint c))"
proof -
  have q: "codepoint (CHR 0x22) = 34" "codepoint (CHR 0x5C) = 92" by (simp_all add: codepoint_def)
  have "c = CHR 0x22 \<longleftrightarrow> codepoint c = 34" "c = CHR 0x5C \<longleftrightarrow> codepoint c = 92"
    by (metis q codepoint_inj)+
  with assms show ?thesis by (auto simp: esc_tail_def esc_char_def needs_escape_def)
qed

lemma esc_tail_prefix:
  assumes "needs_escape c" "needs_escape c'" "esc_tail c @ r = esc_tail c' @ r'"
  shows "c = c' \<and> r = r'"
proof -
  have h: "hex2 (codepoint c) = hex2 (codepoint c') \<longleftrightarrow> codepoint c = codepoint c'"
    by (simp only: hex2_inj codepoint_less)
  have "codepoint c = codepoint c' \<and> r = r'"
    using assms(3) h unfolding esc_tail_code [OF assms(1)] esc_tail_code [OF assms(2)]
    by (auto simp: hex2_def split: if_splits simp del: codepoint_inj)
  then show ?thesis by simp
qed

lemma esc_char_prefix: "esc_char c @ r = esc_char c' @ r' \<Longrightarrow> c = c' \<and> r = r'"
  using esc_tail_prefix [of c c' r r']
  by (auto simp: esc_char_cases needs_escape_def split: if_splits)

lemma esc_string_prefix:
  "concat (map esc_char s) @ CHR 0x22 # r = concat (map esc_char s') @ CHR 0x22 # r' \<Longrightarrow> s = s' \<and> r = r'"
proof (induction s arbitrary: s')
  case Nil
  then show ?case
    using esc_char_hd [of "hd s'"] by (cases s'; cases "esc_char (hd s')") auto
next
  case (Cons c s)
  show ?case
  proof (cases s')
    case Nil
    then show ?thesis using Cons.prems esc_char_hd [of c] by (cases "esc_char c") auto
  next
    case (Cons c' t)
    then have "esc_char c @ concat (map esc_char s) @ CHR 0x22 # r =
        esc_char c' @ concat (map esc_char t) @ CHR 0x22 # r'"
      using Cons.prems by simp
    from esc_char_prefix [OF this] Cons.IH [of t] Cons show ?thesis by simp
  qed
qed

lemma json_str_prefix: "json_str s @ r = json_str s' @ r' \<Longrightarrow> s = s' \<and> r = r'"
  using esc_string_prefix [of s r s' r'] by (simp add: json_str_def)

text \<open>Numbers end where a character that no number has follows.\<close>

definition num_char :: "char \<Rightarrow> bool" where
  "num_char c \<longleftrightarrow> is_dec c \<or> c = CHR ''-''"

lemma dec_int_num_chars: "list_all num_char (dec_int n)"
  using dec_nat_digits by (auto simp: dec_int_def num_char_def list_all_iff)

lemma dec_int_inj: "dec_int m = dec_int n \<longleftrightarrow> m = n"
proof
  assume eq: "dec_int m = dec_int n"
  have "\<not> is_dec CHR ''-''" by simp
  then have "hd (dec_nat k) \<noteq> CHR ''-''" for k using dec_nat_hd [of k] by metis
  then have ne: "dec_nat k \<noteq> CHR ''-'' # xs" for k xs by (metis list.sel(1))
  show "m = n"
    using eq ne ne [symmetric] by (auto simp: dec_int_def dec_nat_inj split: if_splits)
qed simp

lemma dec_int_prefix:
  assumes "dec_int m @ c # r = dec_int n @ c # r'" and "\<not> num_char c"
  shows "m = n \<and> r = r'"
proof -
  have tw: "takeWhile num_char (dec_int k @ c # q) = dec_int k" for k q
    using dec_int_num_chars [of k] assms(2) by (simp add: takeWhile_append2 list_all_iff)
  have "dec_int m = dec_int n" using tw [of m r] tw [of n r'] assms(1) by simp
  then show ?thesis using assms(1) by (simp add: dec_int_inj)
qed

subsection \<open>The incidents of a group can be read off its key's text\<close>

definition incident_text :: "incident \<Rightarrow> string" where
  "incident_text i = dumps '', '' '': '' (incident_json i)"

lemma incident_text_eq:
  "incident_text (fp, st, state, n) =
     ''['' @ json_str fp @ '', '' @ json_str st @ '', '' @ json_str state @ '', '' @ dec_int n @ '']''"
  by (simp add: incident_text_def incident_json_def)

lemma bracket_not_num [simp]: "\<not> num_char CHR '']''"
  by (simp add: num_char_def is_dec_def codepoint_def)

lemma incident_text_prefix:
  assumes "incident_text i @ r = incident_text j @ r'"
  shows "i = j \<and> r = r'"
proof -
  obtain a b c n where i: "i = (a, b, c, n)" by (cases i) auto
  obtain a' b' c' n' where j: "j = (a', b', c', n')" by (cases j) auto
  have "json_str a @ '', '' @ json_str b @ '', '' @ json_str c @ '', '' @ dec_int n @ '']'' @ r =
        json_str a' @ '', '' @ json_str b' @ '', '' @ json_str c' @ '', '' @ dec_int n' @ '']'' @ r'"
    using assms by (simp add: i j incident_text_eq)
  from json_str_prefix [OF this] have a: "a = a'" and
    "json_str b @ '', '' @ json_str c @ '', '' @ dec_int n @ '']'' @ r =
     json_str b' @ '', '' @ json_str c' @ '', '' @ dec_int n' @ '']'' @ r'"
    by simp_all
  from json_str_prefix [OF this(2)] have b: "b = b'" and
    "json_str c @ '', '' @ dec_int n @ '']'' @ r = json_str c' @ '', '' @ dec_int n' @ '']'' @ r'"
    by simp_all
  from json_str_prefix [OF this(2)] have c: "c = c'" and
    "dec_int n @ CHR '']'' # r = dec_int n' @ CHR '']'' # r'"
    by simp_all
  from dec_int_prefix [OF this(2)] a b c show ?thesis by (simp add: i j)
qed

lemma incident_list_prefix:
  "concat (map (\<lambda>i. '', '' @ incident_text i) is) @ '']'' =
   concat (map (\<lambda>i. '', '' @ incident_text i) js) @ '']'' \<Longrightarrow> is = js"
proof (induction "is" arbitrary: js)
  case Nil
  then show ?case by (cases js) auto
next
  case (Cons i "is")
  show ?case
  proof (cases js)
    case Nil
    then show ?thesis using Cons.prems by simp
  next
    case (Cons j ks)
    then have "incident_text i @ concat (map (\<lambda>i. '', '' @ incident_text i) is) @ '']'' =
        incident_text j @ concat (map (\<lambda>i. '', '' @ incident_text i) ks) @ '']''"
      using Cons.prems by simp
    from incident_text_prefix [OF this] Cons.IH [of ks] Cons show ?thesis by simp
  qed
qed

lemma dedup_text_simps:
  "dedup_text [] = ''[]''"
  "dedup_text (i # is) =
     ''['' @ incident_text i @ concat (map (\<lambda>i. '', '' @ incident_text i) is) @ '']''"
  by (simp_all add: dedup_text_def incident_text_def [abs_def] comp_def join_Cons del: join.simps(2,3))

lemma dedup_text_Cons_Nil: "dedup_text (i # is) \<noteq> dedup_text []"
  by (cases i) (simp add: dedup_text_simps incident_text_eq)

lemma dedup_text_inj: "dedup_text is = dedup_text js \<longleftrightarrow> is = js"
proof (cases "is"; cases js)
  fix i ks j ls
  assume l: "is = i # ks" "js = j # ls"
  have "is = js" if "dedup_text is = dedup_text js"
  proof -
    have "incident_text i @ concat (map (\<lambda>i. '', '' @ incident_text i) ks) @ '']'' =
        incident_text j @ concat (map (\<lambda>i. '', '' @ incident_text i) ls) @ '']''"
      using that by (simp add: l dedup_text_simps)
    from incident_text_prefix [OF this] incident_list_prefix [of ks ls] l show ?thesis by simp
  qed
  then show ?thesis by blast
qed (use dedup_text_Cons_Nil dedup_text_Cons_Nil [symmetric] in auto)

subsection \<open>So can the message in a subscriber's payload\<close>

definition opt_text :: "string option \<Rightarrow> string" where
  "opt_text v = dumps '','' '':'' (opt_json v)"

lemma opt_text_prefix:
  "opt_text a @ r = opt_text b @ r' \<Longrightarrow> a = b \<and> r = r'"
  by (cases a; cases b) (auto simp: opt_text_def opt_json_def json_str_def dest: esc_string_prefix)

lemma opt_text_inj: "opt_text a = opt_text b \<longleftrightarrow> a = b"
  using opt_text_prefix [of a "[]" b "[]"] by auto

definition payload_fields :: "(instant \<Rightarrow> string) \<Rightarrow> message \<Rightarrow> string" where
  "payload_fields isof m =
     json_str (body m) @ '','' @ json_str ''from'' @ '':'' @ opt_text (from_number m) @ '','' @
     json_str ''id'' @ '':'' @ json_str (mid m) @ '','' @ json_str ''received_at'' @ '':'' @
     json_str (isof (created_at m)) @ '','' @ json_str ''to'' @ '':'' @ opt_text (to_number m) @ ''}}''"

lemma payload_eq:
  "payload isof m =
     ''{'' @ json_str ''event'' @ '':'' @ json_str ''message.received'' @ '','' @
     json_str ''message'' @ '':'' @ ''{'' @ json_str ''body'' @ '':'' @ payload_fields isof m"
proof -
  have "sort_keys (opt_json v) = opt_json v" for v by (cases v) (simp_all add: opt_json_def)
  then show ?thesis by (simp add: payload_def payload_fields_def opt_text_def)
qed

lemma payload_inj:
  assumes "payload isof m = payload isof m'"
  shows "body m = body m' \<and> from_number m = from_number m' \<and> mid m = mid m' \<and>
    isof (created_at m) = isof (created_at m') \<and> to_number m = to_number m'"
proof -
  have "payload_fields isof m = payload_fields isof m'" using assms by (simp add: payload_eq)
  then show ?thesis
    by (auto simp: payload_fields_def opt_text_inj dest!: json_str_prefix opt_text_prefix)
qed

subsection \<open>Properties\<close>

text \<open>What \<open>hexdigest\<close> is made of.\<close>

definition is_hex :: "char \<Rightarrow> bool" where
  "is_hex c \<longleftrightarrow> 48 \<le> codepoint c \<and> codepoint c \<le> 57 \<or> 97 \<le> codepoint c \<and> codepoint c \<le> 102"

lemma hex_plain: "is_hex c \<Longrightarrow> \<not> is_space c \<and> codepoint c < 128"
  by (auto simp: is_hex_def is_space_def)

lemma presented_hex:
  assumes "list_all is_hex s" and "s \<noteq> []"
  shows "presented_signature (Some s) None = s"
proof -
  have "strip s = s"
    using strip_pad [of "[]" "[]" s] assms hex_plain by (auto simp: list_all_iff)
  moreover have "\<not> starts_with ''sha256='' s"
  proof
    assume "starts_with ''sha256='' s"
    then have "hd s = CHR ''s''" using assms(2) by (cases s) (auto simp: starts_with_def)
    with assms show False by (cases s) (auto simp: is_hex_def codepoint_def)
  qed
  ultimately show ?thesis using assms(2) by (simp add: presented_signature_def removeprefix_def)
qed

text \<open>
  C29. What a subscriber is sent can be authenticated and read unambiguously: with a secret
  configured the delivery carries a signature that the relay's own check, run with that
  secret on the received bytes, accepts; and two messages with the same payload agree in id,
  sender, recipient, text and time.
\<close>

theorem signed_payload_verifies:
  assumes "s_secret sub \<noteq> []" and "webhook_secret cfg = s_secret sub"
    and "\<forall>k b. hmac k b \<noteq> [] \<and> list_all is_hex (hmac k b)"
  shows "\<exists>sig. (''X-Signature'', sig) \<in> set (req_headers (delivery_request hmac isof sub d m)) \<and>
    verify_inbound_signature hmac cfg (Some sig) None (req_content (delivery_request hmac isof sub d m)) =
      Inr (payload isof m) \<and>
    (\<forall>m'. payload isof m' = payload isof m \<longrightarrow>
       mid m' = mid m \<and> from_number m' = from_number m \<and> to_number m' = to_number m \<and> body m' = body m \<and>
       isof (created_at m') = isof (created_at m))"
proof -
  let ?sig = "sign hmac (payload isof m) (s_secret sub)"
  have hex: "list_all is_hex ?sig" "?sig \<noteq> []" using assms(3) by (auto simp: sign_def)
  then have "is_ascii ?sig" using hex_plain by (auto simp: is_ascii_def list_all_iff)
  then have ver: "verify_inbound_signature hmac cfg (Some ?sig) None (payload isof m) = Inr (payload isof m)"
    using presented_hex [OF hex] hex assms(1,2) by (simp add: verify_inbound_signature_def Let_def compare_digest_def)
  have req: "(''X-Signature'', ?sig) \<in> set (req_headers (delivery_request hmac isof sub d m))"
    "req_content (delivery_request hmac isof sub d m) = payload isof m"
    using assms(1) by (simp_all add: delivery_request_def Let_def)
  have inj: "\<forall>m'. payload isof m' = payload isof m \<longrightarrow>
       mid m' = mid m \<and> from_number m' = from_number m \<and> to_number m' = to_number m \<and> body m' = body m \<and>
       isof (created_at m') = isof (created_at m)"
    by (intro allI impI conjI) (drule payload_inj, elim conjE, assumption)+
  show ?thesis
    unfolding req(2) by (intro exI [of _ ?sig] conjI, rule req(1), rule ver, rule inj)
qed

theorem signed_payload_verifies_witness:
  "\<exists>sig. verify_inbound_signature (\<lambda>_ _. ''5a'') (sample_config\<lparr>webhook_secret := ''x''\<rparr>) (Some sig) None
     (payload (\<lambda>_. ''t'') sample_message) = Inr (payload (\<lambda>_. ''t'') sample_message)"
proof -
  have "req_content (delivery_request (\<lambda>_ _. ''5a'') (\<lambda>_. ''t'') sample_subscriber (new_delivery ''d1'' 0 0) sample_message) =
      payload (\<lambda>_. ''t'') sample_message"
    by (simp add: delivery_request_def Let_def)
  then show ?thesis
    using signed_payload_verifies [of sample_subscriber "sample_config\<lparr>webhook_secret := ''x''\<rparr>" "\<lambda>_ _. ''5a''"
        "\<lambda>_. ''t''" "new_delivery ''d1'' 0 0" sample_message]
    by (auto simp: sample_subscriber_def is_hex_def codepoint_def)
qed

lemma mapR_perm:
  assumes "mapR f xs = Inr ys" "mapR f xs' = Inr ys'" "mset xs = mset xs'"
  shows "mset ys = mset ys'"
proof -
  define g where "g x = (case f x of Inr y \<Rightarrow> y | Inl _ \<Rightarrow> undefined)" for x
  have "ys = map g xs" if "mapR f xs = Inr ys" for xs ys
    using that by (induction xs arbitrary: ys) (auto simp: res_simps g_def)
  then have "ys = map g xs" "ys' = map g xs'" using assms(1,2) by auto
  with assms(3) show ?thesis by simp
qed

lemma mapR_enumerate: "mapR (\<lambda>(i, a). f a) (enumerate n xs) = mapR f xs"
  by (induction xs arbitrary: n) auto


definition sample_alert :: "string \<Rightarrow> json" where
  "sample_alert fp =
     JObj [(''status'', JStr ''firing''), (''labels'', JObj [(''alertname'', JStr ''Down'')]),
           (''fingerprint'', JStr fp), (''startsAt'', JStr ''2024'')]"

lemma sample_entries:
  "entries_of (\<lambda>_. Some (0, Some 0)) (\<lambda>_. 5) [sample_alert ''a'', sample_alert ''b''] =
     Inr [((''a'', ''2024'', ''firing'', 0), ''[FIRING] Down: Down'', 3), ((''b'', ''2024'', ''firing'', 0), ''[FIRING] Down: Down'', 3)]"
  "entries_of (\<lambda>_. Some (0, Some 0)) (\<lambda>_. 5) [sample_alert ''b'', sample_alert ''a''] =
     Inr [((''a'', ''2024'', ''firing'', 0), ''[FIRING] Down: Down'', 3), ((''b'', ''2024'', ''firing'', 0), ''[FIRING] Down: Down'', 3)]"
  by code_simp+


end
