(* ===== verification/Service.thy ===== *)
theory Service
  imports Contract
begin

section \<open>Health and metrics (routes/health.py, metrics.py)\<close>

text \<open>
  The read-only views on the tables. \<open>select1\<close> is the outcome of \<open>SELECT 1\<close>, \<open>net\<close> the HTTP client.
\<close>

record health_response =
  h_status :: string
  h_provider :: string
  h_database :: bool
  h_queued :: int

definition healthy :: "unit res \<Rightarrow> bool" where
  "healthy select1 = (case select1 of Inr _ \<Rightarrow> True | Inl _ \<Rightarrow> False)"

definition health :: "config \<Rightarrow> unit res \<Rightarrow> database \<Rightarrow> health_response" where
  "health cfg select1 db =
     (let db_up = healthy select1
      in \<lparr>h_status = (if db_up then ''ok'' else ''degraded''), h_provider = provider_name cfg,
          h_database = db_up, h_queued = (if db_up then int (queue_depth db) else -1)\<rparr>)"

definition gateway_probe :: "config \<Rightarrow> http_request" where
  "gateway_probe cfg =
     json_request (gateway_url cfg @ ''/'') (gateway_user cfg, gateway_password cfg) JNull"

definition gateway_health :: "(http_request \<Rightarrow> response res) \<Rightarrow> config \<Rightarrow> (string \<times> int) res" where
  "gateway_health net cfg =
     (if provider_name cfg \<noteq> ''android_gateway'' \<or> gateway_url cfg = [] then Inr (''unavailable'', 503)
      else
        rbind (case net (gateway_probe cfg) of
                 Inr resp \<Rightarrow> Inr (status_code resp = 200)
               | Inl e \<Rightarrow> if is_HTTPError e \<or> e = TimeoutError then Inr False else Inl e)
          (\<lambda>available. Inr (if available then (''ok'', 200) else (''unavailable'', 503))))"

subsection \<open>Metrics\<close>

record metrics =
  oldest_pending :: int      \<comment> \<open>microseconds\<close>
  failed_last_hour :: nat
  fallback_last_hour :: nat

text \<open>\<open>datetime('now','-1 hour')\<close> has whole seconds.\<close>

definition hour_ago :: "instant \<Rightarrow> instant" where
  "hour_ago now = seconds (now div seconds 1 - 3600)"

definition is_pending :: "message \<Rightarrow> bool" where
  "is_pending m \<longleftrightarrow> direction m = OUTBOUND \<and> (status m = QUEUED \<or> status m = SENDING)"

definition collect :: "instant \<Rightarrow> database \<Rightarrow> metrics" where
  "collect now db =
     \<lparr>oldest_pending = foldr max (map (\<lambda>m. now - created_at m) (filter is_pending (messages db))) 0,
      failed_last_hour =
        length (filter (\<lambda>m. direction m = OUTBOUND \<and> status m = FAILED \<and> updated_at m \<ge> hour_ago now)
                  (messages db)),
      fallback_last_hour =
        length (filter (\<lambda>m. transport m = SmsFallback \<and> created_at m \<ge> hour_ago now) (messages db))\<rparr>"

text \<open>The text format of the exporter; \<open>show_age\<close> is what Python prints for the age in seconds, a float.\<close>

definition metrics_text :: "(int \<Rightarrow> string) \<Rightarrow> metrics \<Rightarrow> string" where
  "metrics_text show_age v =
     ''home_relay_oldest_pending_seconds '' @ show_age (oldest_pending v) @ [CHR 0x0A] @
     ''home_relay_failed_last_hour '' @ dec_nat (failed_last_hour v) @ [CHR 0x0A] @
     ''home_relay_fallback_last_hour '' @ dec_nat (fallback_last_hour v) @ [CHR 0x0A]"

record metrics_reply =
  mr_code :: int
  mr_headers :: "(string \<times> string) list"
  mr_body :: "string option"

text \<open>\<open>send_error\<close> answers with a page of \<open>http.server\<close>'s own.\<close>

definition do_GET :: "(int \<Rightarrow> string) \<Rightarrow> string \<Rightarrow> metrics res \<Rightarrow> metrics_reply" where
  "do_GET show_age path collected =
     (if path \<noteq> ''/metrics'' then \<lparr>mr_code = 404, mr_headers = [], mr_body = None\<rparr>
      else case collected of
             Inl _ \<Rightarrow> \<lparr>mr_code = 503, mr_headers = [], mr_body = None\<rparr>
           | Inr v \<Rightarrow> \<lparr>mr_code = 200, mr_headers = [(''Content-Type'', ''text/plain; version=0.0.4'')],
                       mr_body = Some (metrics_text show_age v)\<rparr>)"

text \<open>A row with everything but what the exporter counts by taken out.\<close>

definition anonymous :: "message \<Rightarrow> message" where
  "anonymous m =
     (new_message [] (created_at m) (updated_at m))
       \<lparr>direction := direction m, status := status m, transport := transport m\<rparr>"

lemma anonymous_fields [simp]:
  "created_at (anonymous m) = created_at m" "updated_at (anonymous m) = updated_at m"
  "direction (anonymous m) = direction m" "status (anonymous m) = status m" "transport (anonymous m) = transport m"
  by (simp_all add: anonymous_def new_message_def)

lemma collect_anonymous: "collect now (db\<lparr>messages := map anonymous (messages db)\<rparr>) = collect now db"
  by (simp add: collect_def filter_map comp_def is_pending_def [abs_def])

lemma foldr_max_ge: "x \<in> set xs \<Longrightarrow> x \<le> foldr max xs (0::int)" and foldr_max_ge0: "0 \<le> foldr max xs (0::int)"
  by (induction xs) auto

lemma foldr_max_mem: "foldr max xs (0::int) \<in> insert 0 (set xs)"
  by (induction xs) (auto simp: max_def)

subsection \<open>Properties\<close>

text \<open>
  C39. The monitoring numbers are true: the oldest-pending age is zero when nothing is
  pending and otherwise covers every pending outbound message and is the age of one of them
  (or zero, never negative), pending being queued or sending; the health endpoint reports
  the number of queued rows exactly when the database answers, with status "ok"; and the
  exporter's answer has no message data: it is that for the same rows without their ids, numbers, texts and
  owners.
\<close>

theorem monitoring_is_true:
  shows "0 \<le> oldest_pending (collect now db) \<and>
    (\<forall>m \<in> set (messages db). direction m = OUTBOUND \<and> active m \<longrightarrow> now - created_at m \<le> oldest_pending (collect now db)) \<and>
    (oldest_pending (collect now db) = 0 \<or>
      (\<exists>m. m \<in> set (messages db) \<and> direction m = OUTBOUND \<and> active m \<and> oldest_pending (collect now db) = now - created_at m)) \<and>
    h_queued (health cfg select1 db) =
      (if h_status (health cfg select1 db) = ''ok'' then int (length (filter (\<lambda>m. status m = QUEUED) (messages db))) else -1) \<and>
    (h_status (health cfg select1 db) = ''ok'' \<longleftrightarrow> (\<exists>r. select1 = Inr r)) \<and>
    do_GET show_age path (Inr (collect now (db\<lparr>messages := map anonymous (messages db)\<rparr>))) =
      do_GET show_age path (Inr (collect now db))"
proof -
  let ?ages = "map (\<lambda>m. now - created_at m) (filter is_pending (messages db))"
  have old: "oldest_pending (collect now db) = foldr max ?ages 0" by (simp add: collect_def)
  have pend: "is_pending m \<longleftrightarrow> direction m = OUTBOUND \<and> active m" for m by (simp add: is_pending_def active_def)
  have "now - created_at m \<le> foldr max ?ages 0" if "m \<in> set (messages db)" "direction m = OUTBOUND" "active m" for m
    using that pend by (intro foldr_max_ge) auto
  moreover have "foldr max ?ages 0 = 0 \<or>
      (\<exists>m. m \<in> set (messages db) \<and> direction m = OUTBOUND \<and> active m \<and> foldr max ?ages 0 = now - created_at m)"
    using foldr_max_mem [of ?ages] pend by auto
  moreover have "h_queued (health cfg select1 db) =
      (if h_status (health cfg select1 db) = ''ok'' then int (length (filter (\<lambda>m. status m = QUEUED) (messages db))) else -1)"
    "h_status (health cfg select1 db) = ''ok'' \<longleftrightarrow> (\<exists>r. select1 = Inr r)"
    by (auto simp: health_def healthy_def queue_depth_def Let_def split: sum.splits)
  ultimately show ?thesis unfolding old collect_anonymous using foldr_max_ge0 by blast
qed

theorem monitoring_is_true_witness:
  "5 \<le> oldest_pending (collect 5 \<lparr>messages = [sample_message], deliveries = []\<rparr>) \<and>
   h_queued (health sample_config (Inr ()) \<lparr>messages = [sample_message], deliveries = []\<rparr>) = 1"
proof -
  have "direction sample_message = OUTBOUND" "status sample_message = QUEUED" "active sample_message" "created_at sample_message = 0"
    by (simp_all add: sample_row active_def)
  then show ?thesis
    using monitoring_is_true [of 5 "\<lparr>messages = [sample_message], deliveries = []\<rparr>" sample_config "Inr ()"] by auto
qed

end
