(* ===== verification/LifeCycle.thy ===== *)
theory LifeCycle
  imports Safety
begin

section \<open>The life of a message\<close>

text \<open>
  What models.py and worker.py promise of a message, as an automaton on the few columns that
  matter (status, transport and attempts), and a simulation: whatever
  handlers and loops do to the tables, each row goes through steps of this automaton, and what was asked
  for or received (\<open>content\<close>) is never altered.
\<close>

record life =
  l_status :: message_status
  l_transport :: transport
  l_attempts :: int

definition life_of :: "message \<Rightarrow> life" where
  "life_of m = \<lparr>l_status = status m, l_transport = transport m, l_attempts = attempts m\<rparr>"

inductive life_step :: "config \<Rightarrow> life \<Rightarrow> life \<Rightarrow> bool" for cfg where
  claim: "l_status a = QUEUED \<Longrightarrow> life_step cfg a (a\<lparr>l_status := SENDING\<rparr>)"
| requeue: "l_status a = SENDING \<Longrightarrow> life_step cfg a (a\<lparr>l_status := QUEUED\<rparr>)"
| publish: "l_status a = SENDING \<Longrightarrow> l_transport a = Ntfy \<Longrightarrow> life_step cfg a (a\<lparr>l_status := PUBLISHED\<rparr>)"
| switch: "l_status a = SENDING \<Longrightarrow> l_transport a = Ntfy \<Longrightarrow> life_step cfg a (a\<lparr>l_transport := SmsFallback\<rparr>)"
| accept:
    "l_status a = SENDING \<Longrightarrow> l_transport a \<noteq> Ntfy \<Longrightarrow>
     life_step cfg a (a\<lparr>l_status := SENT, l_attempts := l_attempts a + 1\<rparr>)"
| retry:
    "l_status a = SENDING \<Longrightarrow> l_transport a \<noteq> Ntfy \<Longrightarrow> l_attempts a + 1 < max_attempts cfg \<Longrightarrow>
     life_step cfg a (a\<lparr>l_status := QUEUED, l_attempts := l_attempts a + 1\<rparr>)"
| give_up:
    "l_status a = SENDING \<Longrightarrow> l_transport a \<noteq> Ntfy \<Longrightarrow>
     life_step cfg a (a\<lparr>l_status := FAILED, l_attempts := l_attempts a + 1\<rparr>)"
| receipt:
    "l_status a \<notin> {QUEUED, SENDING} \<Longrightarrow> st \<in> {DELIVERED, FAILED} \<Longrightarrow>
     life_step cfg a (a\<lparr>l_status := st\<rparr>)"

inductive_cases life_stepE: "life_step cfg a b"

abbreviation lives :: "config \<Rightarrow> life \<Rightarrow> life \<Rightarrow> bool" where
  "lives cfg \<equiv> (life_step cfg)\<^sup>*\<^sup>*"

text \<open>The step one row takes in one step of the service: none, or one of the automaton.\<close>

definition row_step :: "config \<Rightarrow> message \<Rightarrow> message \<Rightarrow> bool" where
  "row_step cfg m m' \<longleftrightarrow>
     content m' = content m \<and> direction m' = direction m \<and>
     (life_of m' = life_of m \<or> life_step cfg (life_of m) (life_of m'))"

lemma row_step_refl [simp]: "row_step cfg m m"
  by (simp add: row_step_def)

lemma row_step_stamp [simp]: "row_step cfg m (m'\<lparr>updated_at := t\<rparr>) = row_step cfg m m'"
  by (simp add: row_step_def life_of_def content_def)

lemma inactive_change_row_step: "inactive_change m m' \<Longrightarrow> row_step cfg m m'"
proof -
  assume a: "inactive_change m m'"
  show ?thesis
  proof (cases "status m' = status m")
    case True
    with a show ?thesis by (simp add: inactive_change_def row_step_def life_of_def)
  next
    case False
    with a have "status m' \<in> {DELIVERED, FAILED}" "l_status (life_of m) \<notin> {QUEUED, SENDING}"
      "life_of m' = (life_of m)\<lparr>l_status := status m'\<rparr>"
      by (auto simp: inactive_change_def life_of_def active_def)
    then have "life_step cfg (life_of m) (life_of m')" using receipt by metis
    with a show ?thesis by (simp add: row_step_def inactive_change_def)
  qed
qed

subsection \<open>The send loop's own changes\<close>

lemma claimed_row_step: "status m = QUEUED \<Longrightarrow> row_step cfg m (claimed now t m)"
proof -
  assume "status m = QUEUED"
  moreover have "life_of (claimed now t m) = (life_of m)\<lparr>l_status := SENDING\<rparr>" by (simp add: life_of_def)
  moreover have "content (claimed now t m) = content m"
    by (simp add: content_def claimed_def message_changes_def)
  ultimately show ?thesis using claim [of "life_of m" cfg] by (simp add: row_step_def life_of_def)
qed

lemma published_row_step: "status m = SENDING \<Longrightarrow> transport m = Ntfy \<Longrightarrow> row_step cfg m (published receipt now m)"
  using publish [of "life_of m" cfg] by (simp add: row_step_def published_def life_of_def content_def)

lemma fall_back_row_step: "status m = SENDING \<Longrightarrow> transport m = Ntfy \<Longrightarrow> row_step cfg m (fall_back m)"
  using switch [of "life_of m" cfg] by (simp add: row_step_def fall_back_def life_of_def content_def)

lemma requeued_row_step: "status m = SENDING \<Longrightarrow> row_step cfg m (m\<lparr>status := QUEUED, next_attempt_at := due\<rparr>)"
  using requeue [of "life_of m" cfg] by (simp add: row_step_def life_of_def content_def)

lemma after_send_row_step:
  assumes "after_send cfg b result now m = Inr m'" and "status m = SENDING" "transport m \<noteq> Ntfy"
  shows "row_step cfg m m'"
proof -
  have a: "l_status (life_of m) = SENDING" "l_transport (life_of m) \<noteq> Ntfy" using assms by (simp_all add: life_of_def)
  from assms(1) consider
      (ok) pid where "m' = sent pid now m"
    | (err) msg p where "m' = send_failure cfg now msg p m"
    by (auto simp: after_send_def res_simps split: sum.splits exn.splits)
  then show ?thesis
  proof cases
    case ok
    with accept [OF a] show ?thesis by (simp add: row_step_def sent_def life_of_def content_def)
  next
    case err
    with give_up [OF a, of cfg] retry [OF a, of cfg] show ?thesis
      by (auto simp: row_step_def send_failure_def life_of_def content_def Let_def)
  qed
qed

text \<open>What a row of a commit's result is, for objects that are still their rows.\<close>

lemma commit_row_origin:
  assumes "db_ok db" and c: "commit_messages t ps db = Inr d'" and "distinct (map (\<lambda>p. mid (fst p)) ps)"
    and "\<forall>p \<in> set ps. fst p \<in> set (messages db)" and "m' \<in> set (messages d')"
  shows "m' \<in> set (messages db) \<and> mid m' \<notin> (\<lambda>p. mid (fst p)) ` set ps \<or> (\<exists>p \<in> set ps. m' = msg.written t p)"
  using commit_owned [OF assms(1,3,4), of t] c assms(5) by auto

subsection \<open>Every step of the service is a step of each row's life\<close>

definition rows_live :: "config \<Rightarrow> relay \<Rightarrow> database \<Rightarrow> bool" where
  "rows_live cfg s d2 \<longleftrightarrow>
     (\<forall>m' \<in> set (messages d2). mid m' \<notin> used_ids s \<or>
        (\<exists>m \<in> set (messages (current s)). mid m' = mid m \<and> row_step cfg m m'))"

definition storing_ok :: "config \<Rightarrow> relay \<Rightarrow> bool" where
  "storing_ok cfg s \<longleftrightarrow> (\<forall>old new go. pc s = Storing old new go \<longrightarrow> row_step cfg old new)"

lemma rows_live_same: "rows_live cfg s (current s)"
  by (auto simp: rows_live_def)

lemma bystander_rows_live:
  assumes byst: "bystander cfg F op" and inv: "relay_inv cfg s" and d0: "d0 \<in> seen s"
    and F: "F \<inter> used_ids s = {}"
  shows "rows_live cfg s (op d0 (current s))"
proof -
  have "bystands F (current s) (op d0 (current s))"
    using inv d0 by (intro bystander.op_bystands [OF byst]) (auto simp: relay_inv_def)
  then have orig: "m' \<in> set (messages (current s)) \<or> mid m' \<in> F \<or>
      (\<exists>m \<in> set (messages (current s)). mid m' = mid m \<and> row_step cfg m m')"
    if "m' \<in> set (messages (op d0 (current s)))" for m'
  proof -
    from \<open>bystands F (current s) (op d0 (current s))\<close> that consider "m' \<in> set (messages (current s))" | "mid m' \<in> F"
      | m1 where "m1 \<in> set (messages (current s))" "inactive_change m1 m'"
      unfolding bystands_def by blast
    then show ?thesis
    proof cases
      case (3 m1)
      then have "mid m' = mid m1" "row_step cfg m1 m'" by (simp_all add: inactive_change_def inactive_change_row_step)
      with 3(1) show ?thesis by blast
    qed simp_all
  qed
  show ?thesis unfolding rows_live_def
  proof
    fix m' assume "m' \<in> set (messages (op d0 (current s)))"
    from orig [OF this] F row_step_refl [of cfg m']
    show "mid m' \<notin> used_ids s \<or> (\<exists>m \<in> set (messages (current s)). mid m' = mid m \<and> row_step cfg m m')" by blast
  qed
qed

lemma commit_rows_live:
  assumes inv: "relay_inv cfg s" and c: "commit_messages t ps (current s) = Inr d'"
    and dist: "distinct (map (\<lambda>p. mid (fst p)) ps)"
    and ps: "\<forall>p \<in> set ps. fst p \<in> set (messages (current s)) \<and> row_step cfg (fst p) (msg.written t p)"
  shows "rows_live cfg s d'"
proof -
  have db: "db_ok (current s)" using inv by (simp add: relay_inv_def tables_ok_def)
  have "m' \<in> set (messages (current s)) \<or> (\<exists>p \<in> set ps. m' = msg.written t p)" if "m' \<in> set (messages d')" for m'
    using commit_row_origin [OF db c dist _ that] ps by blast
  then show ?thesis unfolding rows_live_def using ps msg.key_written row_step_refl by blast
qed

lemma requeue_rows_live:
  assumes inv: "relay_inv cfg s" and hold: "holds cfg d0 (current s)"
    and rq: "requeue_stuck cfg now due t d0 (current s) = Inr d2"
  shows "rows_live cfg s d2"
proof -
  let ?re = "\<lambda>m :: message. m\<lparr>status := QUEUED, next_attempt_at := Some (due (mid m))\<rparr>"
  define stuck where "stuck = filter (is_stuck (now - seconds (stuck_after_seconds cfg))) (messages d0)"
  have sending: "m \<in> set (messages (current s)) \<and> status m = SENDING" if "m \<in> set stuck" for m
    using hold that by (auto simp: stuck_def is_stuck_def holds_def active_def)
  show ?thesis
  proof (cases "stuck = []")
    case True
    then show ?thesis using rq rows_live_same [of cfg s] by (simp add: requeue_stuck_def stuck_def [symmetric] Let_def)
  next
    case False
    then have c: "commit_messages t (map (\<lambda>m. (m, ?re m)) stuck) (current s) = Inr d2"
      using rq by (simp add: requeue_stuck_def stuck_def [symmetric] Let_def)
    have "distinct (map mid stuck)"
      using hold by (simp add: stuck_def holds_def tables_ok_def db_ok_distinct distinct_map_filter)
    moreover have "row_step cfg m (msg.written t (m, ?re m))" if "m \<in> set stuck" for m
      using requeued_row_step [of m cfg "Some (due (mid m))"] sending [OF that]
      by (simp add: msg.written_def message_changes_self)
    ultimately show ?thesis using sending by (intro commit_rows_live [OF inv c]) (auto simp: comp_def)
  qed
qed

lemma claim_rows_live:
  assumes inv: "relay_inv cfg s" and p: "pc s = Claiming d0"
    and cl: "claim_next now t d0 (current s) = Inr (Some m, d')"
  shows "rows_live cfg s d'"
  using cl
proof (rule claim_next_Some)
  fix m0
  assume m0: "m0 \<in> set (messages d0)" "is_due now m0"
    and c: "commit_messages t [(m0, m0\<lparr>status := SENDING, updated_at := now\<rparr>)] (current s) = Inr d'"
  have q: "status m0 = QUEUED" using m0(2) by (simp add: is_due_def)
  have "m0 \<in> set (messages (current s))"
    using inv p m0 q by (auto simp: relay_inv_def pc_ok_def holds_def active_def)
  then show ?thesis
    using claimed_row_step [OF q, of cfg now "t (mid m0)"]
    by (intro commit_rows_live [OF inv c]) (auto simp: msg.written_def claimed_def)
qed

lemma stored_rows_live:
  assumes inv: "relay_inv cfg s" and p: "pc s = Storing old new go" and st: "storing_ok cfg s"
    and c: "commit_messages t [(old, new)] (current s) = Inr d'"
  shows "rows_live cfg s d'"
proof -
  have "old \<in> set (messages (current s))" "store_ok cfg s old new go"
    using inv p by (auto simp: relay_inv_def pc_ok_def)
  moreover have "row_step cfg old new" using st p by (simp add: storing_ok_def)
  ultimately show ?thesis
    by (intro commit_rows_live [OF inv c]) (auto simp: msg.written_def message_changes_self store_ok_def)
qed

lemma relay_step_lives:
  "relay_step X cfg s s' \<Longrightarrow> relay_inv cfg s \<Longrightarrow> storing_ok cfg s \<Longrightarrow>
   rows_live cfg s (current s') \<and> storing_ok cfg s'"
proof (induction rule: relay_step.induct)
  case (api_send d0 s fresh r svc)
  then show ?case using bystander_rows_live [OF api_send.bystander_axioms] by (simp add: storing_ok_def)
next
  case (inbound d0 s seed xs xh raw)
  then show ?case using bystander_rows_live [OF inbound.bystander_axioms] by (simp add: storing_ok_def)
next
  case (poll_status d0 s net wr stamp uuid now t)
  then show ?case using bystander_rows_live [OF status_poll.bystander_axioms] by (simp add: storing_ok_def)
next
  case (fan_out d0 s net tn now t)
  then show ?case using bystander_rows_live [OF fanout.bystander_axioms] by (simp add: storing_ok_def)
next
  case (pruned s now)
  then show ?case
    using bystander_rows_live [OF pruning.bystander_axioms, of cfg s "current s"] by (simp add: seen_def storing_ok_def)
next
  case (requeue_commit s d0 now due t d')
  then show ?case using requeue_rows_live by (auto simp: storing_ok_def relay_inv_def pc_ok_def)
next
  case (claim_none s d0 now t d')
  then show ?case by (auto dest!: claim_next_None simp: rows_live_same storing_ok_def)
next
  case (claim_some s d0 now t m d')
  then show ?case using claim_rows_live by (auto simp: storing_ok_def)
next
  case (publish_ok s m receipt now)
  then show ?case using published_row_step by (auto simp: rows_live_same [of cfg s] storing_ok_def relay_inv_def pc_ok_def)
next
  case (publish_failed s m e)
  then show ?case using fall_back_row_step by (auto simp: rows_live_same [of cfg s] storing_ok_def relay_inv_def pc_ok_def)
next
  case (texted s m result now m')
  then show ?case using after_send_row_step by (auto simp: rows_live_same [of cfg s] storing_ok_def relay_inv_def pc_ok_def)
next
  case (stored s old new go t d')
  then show ?case using stored_rows_live by (auto simp: storing_ok_def)
qed (auto simp: rows_live_same storing_ok_def)

lemma reachable_storing: "relay_reachable X cfg s \<Longrightarrow> storing_ok cfg s"
proof (induction rule: relay_reachable.induct)
  case (init d)
  then show ?case by (simp add: storing_ok_def start_def)
next
  case (step s s')
  then show ?case using relay_step_lives reachable_inv by blast
qed

lemma used_ids_steps: "relay_steps X cfg s s' \<Longrightarrow> used_ids s \<subseteq> used_ids s'"
  using seen_grows_steps by (fastforce simp: used_ids_def)

lemma run_lives:
  assumes reach: "relay_reachable X cfg s" and run: "relay_steps X cfg s s'"
    and m: "m \<in> set (messages (current s))"
  shows "\<forall>m' \<in> set (messages (current s')). mid m' = mid m \<longrightarrow>
    content m' = content m \<and> direction m' = direction m \<and> lives cfg (life_of m) (life_of m')"
  using run
proof (induction rule: rtranclp_induct)
  case base
  have "db_ok (current s)" using reachable_inv [OF reach] by (simp add: relay_inv_def tables_ok_def)
  then show ?case using distinct_map_eqD [OF db_ok_distinct] m by blast
next
  case (step s1 s2)
  have r1: "relay_reachable X cfg s1" by (rule reachable_steps [OF step.hyps(1) reach])
  have live: "rows_live cfg s1 (current s2)"
    using relay_step_lives [OF step.hyps(2) reachable_inv [OF r1] reachable_storing [OF r1]] by simp
  have "mid m \<in> used_ids s" using m by (auto simp: used_ids_def seen_def ids_def)
  then have used: "mid m \<in> used_ids s1" using used_ids_steps [OF step.hyps(1)] by blast
  show ?case
  proof (intro ballI impI)
    fix m' assume m': "m' \<in> set (messages (current s2))" "mid m' = mid m"
    then obtain m1 where m1: "m1 \<in> set (messages (current s1))" "mid m' = mid m1" "row_step cfg m1 m'"
      using live used unfolding rows_live_def by metis
    then have "content m1 = content m \<and> direction m1 = direction m \<and> lives cfg (life_of m) (life_of m1)"
      using step.IH m'(2) by simp
    then show "content m' = content m \<and> direction m' = direction m \<and> lives cfg (life_of m) (life_of m')"
      using m1(3) by (auto simp: row_step_def intro: rtranclp.rtrancl_into_rtrancl)
  qed
qed

subsection \<open>What the automaton allows\<close>

lemma lives_attempts: "lives cfg a b \<Longrightarrow> l_attempts a \<le> l_attempts b"
  by (induction rule: rtranclp_induct) (auto elim: life_stepE)

lemma lives_transport: "lives cfg a b \<Longrightarrow> l_transport b = l_transport a \<or> l_transport a = Ntfy \<and> l_transport b = SmsFallback"
  by (induction rule: rtranclp_induct) (auto elim: life_stepE)

lemma lives_settled: "lives cfg a b \<Longrightarrow> l_status a \<notin> {QUEUED, SENDING} \<Longrightarrow> l_status b \<in> {l_status a, DELIVERED, FAILED} \<and> l_attempts b = l_attempts a"
  by (induction rule: rtranclp_induct) (auto elim: life_stepE)

subsection \<open>Properties\<close>

text \<open>
  C5. The service implements the life cycle: in any run, with every interleaving and crash,
  each row goes through steps of the automaton and nothing else, and what was asked for or
  received (numbers, body, service, key, topic, priority, time of creation) is never altered.
  So it only moves forward: attempts never decrease, the transport changes at most once, from
  ntfy to the SMS fallback, and a row seen in any other status than queued or sending is never
  queued, sending or tried again: at most a receipt makes it delivered or failed.
\<close>

theorem messages_live_the_life_cycle:
  assumes "relay_reachable X cfg s" and "(relay_step X cfg)\<^sup>*\<^sup>* s s'"
    and "m \<in> set (messages (current s))" and "m' \<in> set (messages (current s'))" and "mid m' = mid m"
  shows "(life_step cfg)\<^sup>*\<^sup>* (life_of m) (life_of m') \<and> content m' = content m \<and> direction m' = direction m \<and>
    attempts m \<le> attempts m' \<and>
    (transport m' = transport m \<or> transport m = Ntfy \<and> transport m' = SmsFallback) \<and>
    (status m \<in> {QUEUED, SENDING} \<or> status m' \<in> {status m, DELIVERED, FAILED} \<and> attempts m' = attempts m)"
proof -
  have l: "lives cfg (life_of m) (life_of m')" and c: "content m' = content m \<and> direction m' = direction m"
    using run_lives [OF assms(1-3)] assms(4,5) by simp_all
  show ?thesis
    using l c lives_attempts [OF l] lives_transport [OF l] lives_settled [OF l] by (auto simp: life_of_def)
qed

lemma sample_run_rows:
  obtains s m' where "relay_steps sample_externals sample_config (start ntfy_db) s" "m' \<in> set (messages (current s))"
    "mid m' = mid ntfy_message" "life_of m' = \<lparr>l_status = SENT, l_transport = SmsFallback, l_attempts = 1\<rparr>"
proof -
  obtain s where s: "relay_steps sample_externals sample_config (start ntfy_db) s" "current s = snd sample_iteration"
    by (rule sample_run)
  obtain m' where "messages (snd sample_iteration) = [m']"
    using sample_iteration_rows by (cases "messages (snd sample_iteration)") auto
  with s sample_iteration_rows show thesis
    by (intro that [of s m']) (auto simp: life_of_def ntfy_message_def sample_row)
qed

theorem messages_live_the_life_cycle_witness:
  "(life_step sample_config)\<^sup>*\<^sup>* \<lparr>l_status = QUEUED, l_transport = Ntfy, l_attempts = 0\<rparr>
     \<lparr>l_status = SENT, l_transport = SmsFallback, l_attempts = 1\<rparr>"
proof -
  obtain s m' where s: "relay_steps sample_externals sample_config (start ntfy_db) s" "m' \<in> set (messages (current s))"
    "mid m' = mid ntfy_message" "life_of m' = \<lparr>l_status = SENT, l_transport = SmsFallback, l_attempts = 1\<rparr>"
    by (rule sample_run_rows)
  have "life_of ntfy_message = \<lparr>l_status = QUEUED, l_transport = Ntfy, l_attempts = 0\<rparr>"
    by (simp add: life_of_def ntfy_message_def sample_row)
  moreover have "ntfy_message \<in> set (messages (current (start ntfy_db)))" by (simp add: start_def ntfy_db_def)
  ultimately show ?thesis
    using messages_live_the_life_cycle [OF relay_reachable.init [OF ntfy_db_startable] s(1) _ s(2,3)] s(4) by simp
qed

end
