(* ===== verification/Loops.thy ===== *)
theory Loops
  imports Drain RateLimiter
begin

section \<open>The loops' pacing and the stop event (worker.py)\<close>

text \<open>
  What the four loops do between the bodies modelled in Worker: test the stop event, sleep
  until the next poll, wake at once when the event is set. Time is a reading of the event
  loop's clock; \<open>stop_at\<close> is when the event is set, if ever, and a turn of a loop carries how
  long its body takes. A run over a list of turns is \<open>None\<close> while the loop has not returned.
  Then the send loop with the limiter of RateLimiter, and what both together promise.
\<close>

definition SEND_POLL_SECONDS :: int where "SEND_POLL_SECONDS = 2"

definition STATUS_POLL_SECONDS :: int where "STATUS_POLL_SECONDS = 60"

definition FANOUT_POLL_SECONDS :: int where "FANOUT_POLL_SECONDS = 5"

definition PRUNE_INTERVAL_SECONDS :: int where "PRUNE_INTERVAL_SECONDS = 6 * 3600"

definition is_stopped :: "instant option \<Rightarrow> instant \<Rightarrow> bool" where
  "is_stopped stop_at now = (case stop_at of None \<Rightarrow> False | Some t \<Rightarrow> t \<le> now)"

text \<open>\<open>wait_for(stop.wait(), seconds)\<close>: when the sleeper wakes.\<close>

definition sleep_or_stop :: "instant option \<Rightarrow> instant \<Rightarrow> int \<Rightarrow> instant" where
  "sleep_or_stop stop_at now secs =
     (case stop_at of
        None \<Rightarrow> now + seconds secs
      | Some t \<Rightarrow> if t \<le> now + seconds secs then max now t else now + seconds secs)"

text \<open>How a body ends: it found nothing to do, worked, or raised an exception the loop logs.\<close>

datatype outcome = Idle | Worked | Raised

type_synonym 's body = "'s \<Rightarrow> outcome \<times> int \<times> 's"

text \<open>The send and fan-out loops sleep after a body that was idle or raised.\<close>

fun work_first :: "int \<Rightarrow> instant option \<Rightarrow> 's body list \<Rightarrow> instant \<Rightarrow> 's \<Rightarrow> (instant \<times> 's) option" where
  "work_first secs stop_at bodies now s =
     (if is_stopped stop_at now then Some (now, s)
      else case bodies of
             [] \<Rightarrow> None
           | b # bs \<Rightarrow>
               let (outcome, took, s') = b s
               in work_first secs stop_at bs
                    (if outcome = Worked then now + took else sleep_or_stop stop_at (now + took) secs) s')"

text \<open>The status and prune loops sleep first, and test the event again before they work.\<close>

fun sleep_first :: "int \<Rightarrow> instant option \<Rightarrow> 's body list \<Rightarrow> instant \<Rightarrow> 's \<Rightarrow> (instant \<times> 's) option" where
  "sleep_first secs stop_at bodies now s =
     (if is_stopped stop_at now then Some (now, s)
      else
        let woken = sleep_or_stop stop_at now secs
        in if is_stopped stop_at woken then Some (woken, s)
           else case bodies of
                  [] \<Rightarrow> None
                | b # bs \<Rightarrow> let (outcome, took, s') = b s in sleep_first secs stop_at bs (woken + took) s')"

declare work_first.simps [simp del] sleep_first.simps [simp del]

subsection \<open>How the bodies end\<close>

definition send_sms_outcome ::
  "config \<Rightarrow> (json \<Rightarrow> string res) \<Rightarrow> (string \<Rightarrow> string \<Rightarrow> json res) \<Rightarrow> send_env \<Rightarrow> message \<Rightarrow> database \<Rightarrow> outcome"
where
  "send_sms_outcome cfg bind_other send env m db =
     (case after_send cfg bind_other
             (send (case to_number m of None \<Rightarrow> [] | Some n \<Rightarrow> n) (body m)) (e_now_send env) m of
        Inl _ \<Rightarrow> Raised
      | Inr m' \<Rightarrow> (case commit_messages (e_send_flush env) [(m, m')] db of Inl _ \<Rightarrow> Raised | Inr _ \<Rightarrow> Worked))"

definition send_outcome ::
  "config \<Rightarrow> (json \<Rightarrow> string res) \<Rightarrow> (message \<Rightarrow> string res) \<Rightarrow> (string \<Rightarrow> string \<Rightarrow> json res) \<Rightarrow>
   send_env \<Rightarrow> database \<Rightarrow> outcome"
where
  "send_outcome cfg bind_other pub send env db =
     (case requeue_stuck cfg (e_now_cutoff env) (e_requeue_due env) (e_requeue_flush env) db db of
        Inl _ \<Rightarrow> Raised
      | Inr db1 \<Rightarrow>
         (case claim_next (e_now_claim env) (e_claim_flush env) db1 db1 of
            Inl _ \<Rightarrow> Raised
          | Inr (None, _) \<Rightarrow> Idle
          | Inr (Some m, db2) \<Rightarrow>
              if transport m = Ntfy then
                (case pub m of
                   Inr receipt \<Rightarrow>
                     (case commit_messages (e_publish_flush env) [(m, published receipt (e_now_publish env) m)] db2 of
                        Inl _ \<Rightarrow> Raised | Inr _ \<Rightarrow> Worked)
                 | Inl e \<Rightarrow>
                     if \<not> publish_error e then Raised
                     else
                       (case commit_messages (e_publish_flush env) [(m, fall_back m)] db2 of
                          Inl _ \<Rightarrow> Raised
                        | Inr db3 \<Rightarrow>
                            send_sms_outcome cfg bind_other send env
                              (message_changes (e_publish_flush env (mid m)) m (fall_back m) m) db3))
              else send_sms_outcome cfg bind_other send env m db2))"

definition fanout_outcome ::
  "(delivery \<Rightarrow> message \<Rightarrow> delivery res) \<Rightarrow> instant \<Rightarrow> (string \<Rightarrow> instant) \<Rightarrow> database \<Rightarrow> outcome"
where
  "fanout_outcome attempt now t db =
     (let due = take 20 (sort_key d_created_at (filter (delivery_due now) (deliveries db)))
      in if due = [] then Idle
         else case rbind (mapR (fanout_one attempt db) due) (\<lambda>ps. commit_deliveries t ps db) of
                Inl _ \<Rightarrow> Raised
              | Inr _ \<Rightarrow> Worked)"

subsection \<open>The four tasks\<close>

definition send_task ::
  "config \<Rightarrow> (json \<Rightarrow> string res) \<Rightarrow> instant option \<Rightarrow>
   (int \<times> send_env \<times> (message \<Rightarrow> string res) \<times> (string \<Rightarrow> string \<Rightarrow> json res)) list \<Rightarrow>
   instant \<Rightarrow> database \<Rightarrow> (instant \<times> database) option"
where
  "send_task cfg bind_other stop_at turns =
     work_first SEND_POLL_SECONDS stop_at
       (map (\<lambda>(took, env, pub, send) db.
               (send_outcome cfg bind_other pub send env db, took, snd (send_iteration cfg bind_other pub send env db)))
          turns)"

definition status_task ::
  "(string \<Rightarrow> message_status option res) \<Rightarrow> instant option \<Rightarrow> (int \<times> instant \<times> (string \<Rightarrow> instant)) list \<Rightarrow>
   instant \<Rightarrow> database \<Rightarrow> (instant \<times> database) option"
where
  "status_task fetch stop_at turns =
     sleep_first STATUS_POLL_SECONDS stop_at
       (map (\<lambda>(took, now, t) db. (Worked, took, status_iteration fetch now t db db)) turns)"

definition fanout_task ::
  "instant option \<Rightarrow> (int \<times> (delivery \<Rightarrow> message \<Rightarrow> delivery res) \<times> instant \<times> (string \<Rightarrow> instant)) list \<Rightarrow>
   instant \<Rightarrow> database \<Rightarrow> (instant \<times> database) option"
where
  "fanout_task stop_at turns =
     work_first FANOUT_POLL_SECONDS stop_at
       (map (\<lambda>(took, attempt, now, t) db.
               (fanout_outcome attempt now t db, took, fanout_iteration attempt now t db db)) turns)"

definition prune_task ::
  "config \<Rightarrow> instant option \<Rightarrow> (int \<times> instant) list \<Rightarrow> instant \<Rightarrow> database \<Rightarrow> (instant \<times> database) option"
where
  "prune_task cfg stop_at turns =
     sleep_first PRUNE_INTERVAL_SECONDS stop_at
       (map (\<lambda>(took, now) db. (Worked, took, prune cfg now db)) turns)"

subsection \<open>Stopping\<close>

text \<open>Bodies that take some time, and at most \<open>limit\<close>.\<close>

definition takes_at_most :: "int \<Rightarrow> 's body \<Rightarrow> bool" where
  "takes_at_most limit b \<longleftrightarrow> (\<forall>s. 1 \<le> fst (snd (b s)) \<and> fst (snd (b s)) \<le> limit)"

lemma sleep_or_stop_bounds:
  assumes "0 \<le> secs"
  shows "now \<le> sleep_or_stop (Some t) now secs" "sleep_or_stop (Some t) now secs \<le> max now t"
    and "is_stopped (Some t) now \<Longrightarrow> sleep_or_stop (Some t) now secs = now"
  using assms by (auto simp: sleep_or_stop_def is_stopped_def seconds_def)

lemma work_first_stops:
  assumes "0 \<le> secs" and "\<forall>b \<in> set bodies. takes_at_most limit b"
    and "now \<le> stop + limit" and "nat (stop - now) \<le> length bodies"
  shows "\<exists>e s'. work_first secs (Some stop) bodies now s = Some (e, s') \<and> stop \<le> e \<and> e \<le> stop + limit"
  using assms
proof (induction bodies arbitrary: now s)
  case Nil
  then show ?case by (simp add: work_first.simps is_stopped_def)
next
  case (Cons b bs)
  obtain oc took s' where b: "b s = (oc, took, s')" by (cases "b s")
  have took: "1 \<le> took" "took \<le> limit"
    using Cons.prems(2) b by (auto simp: takes_at_most_def dest: spec [of _ s])
  show ?case
  proof (cases "stop \<le> now")
    case True
    then show ?thesis using Cons.prems(3) by (simp add: work_first.simps is_stopped_def)
  next
    case False
    define next_now where "next_now = (if oc = Worked then now + took else sleep_or_stop (Some stop) (now + took) secs)"
    have "now + 1 \<le> next_now" "next_now \<le> stop + limit"
      using took False sleep_or_stop_bounds(1,2) [OF Cons.prems(1), where now = "now + took" and t = stop] by (auto simp: next_now_def)
    then have "\<exists>e s''. work_first secs (Some stop) bs next_now s' = Some (e, s'') \<and> stop \<le> e \<and> e \<le> stop + limit"
      using Cons.prems False by (intro Cons.IH) auto
    moreover have "work_first secs (Some stop) (b # bs) now s = work_first secs (Some stop) bs next_now s'"
      using False b by (simp add: work_first.simps [of _ _ "b # bs"] is_stopped_def next_now_def)
    ultimately show ?thesis by simp
  qed
qed

lemma sleep_first_stops:
  assumes "0 \<le> secs" and "\<forall>b \<in> set bodies. takes_at_most limit b"
    and "now \<le> stop + limit" "0 \<le> limit" and "nat (stop - now) \<le> length bodies"
  shows "\<exists>e s'. sleep_first secs (Some stop) bodies now s = Some (e, s') \<and> stop \<le> e \<and> e \<le> stop + limit"
  using assms
proof (induction bodies arbitrary: now s)
  case Nil
  then show ?case by (simp add: sleep_first.simps is_stopped_def)
next
  case (Cons b bs)
  obtain oc took s' where b: "b s = (oc, took, s')" by (cases "b s")
  have took: "1 \<le> took" "took \<le> limit"
    using Cons.prems(2) b by (auto simp: takes_at_most_def dest: spec [of _ s])
  define woken where "woken = sleep_or_stop (Some stop) now secs"
  have w: "now \<le> woken" "woken \<le> max now stop"
    using sleep_or_stop_bounds [OF Cons.prems(1)] by (auto simp: woken_def)
  show ?case
  proof (cases "stop \<le> woken")
    case True
    then show ?thesis
      using Cons.prems(3,4) w b by (auto simp: sleep_first.simps [of _ _ "b # bs"] is_stopped_def woken_def Let_def)
  next
    case False
    then have "\<exists>e s''. sleep_first secs (Some stop) bs (woken + took) s' = Some (e, s'') \<and> stop \<le> e \<and> e \<le> stop + limit"
      using Cons.prems w took by (intro Cons.IH) auto
    moreover have "sleep_first secs (Some stop) (b # bs) now s = sleep_first secs (Some stop) bs (woken + took) s'"
      using False w b by (simp add: sleep_first.simps [of _ _ "b # bs"] is_stopped_def woken_def Let_def)
    ultimately show ?thesis by simp
  qed
qed

lemma turns_take_at_most:
  "\<forall>turn \<in> set turns. 1 \<le> fst turn \<and> fst turn \<le> limit \<Longrightarrow>
   \<forall>b \<in> set (map (\<lambda>turn s. (oc turn s, fst turn, st turn s)) turns). takes_at_most limit b"
  by (auto simp: takes_at_most_def)

subsection \<open>The send loop with its limiter\<close>

text \<open>
  \<open>acquire\<close> comes before every \<open>provider.send\<close>. A turn has, with what it had in \<open>send_loop\<close>,
  the readings of the clock its \<open>acquire\<close> gets. \<open>texts\<close> lists the texts a run hands to the provider, with
  their instants; a turn that is still waiting for its slot ends the run.
\<close>

definition sms_ids :: "effect list \<Rightarrow> string list" where
  "sms_ids effects = concat (map (\<lambda>e. case e of CallSms i \<Rightarrow> [i] | CallNtfy _ \<Rightarrow> []) effects)"

fun texts ::
  "config \<Rightarrow> (json \<Rightarrow> string res) \<Rightarrow> (turn \<times> instant list) list \<Rightarrow> rate_limiter \<Rightarrow> database \<Rightarrow>
   (instant \<times> string) list"
where
  "texts cfg bind_other [] l db = []"
| "texts cfg bind_other (((env, pub, send), readings) # turns) l db =
     (let (effects, db') = send_iteration cfg bind_other pub send env db
      in case sms_ids effects of
           [] \<Rightarrow> texts cfg bind_other turns l db'
         | i # _ \<Rightarrow>
             (case acquire readings l of
                None \<Rightarrow> []
              | Some (at, l') \<Rightarrow> (at, i) # texts cfg bind_other turns l' db'))"

lemma sms_ids_append: "sms_ids (xs @ ys) = sms_ids xs @ sms_ids ys"
  by (simp add: sms_ids_def)

lemma sms_ids_send_sms: "sms_ids (fst (send_sms cfg bind_other send env m db)) = [mid m]"
  by (simp add: send_sms_def sms_ids_def split: sum.split)

lemma sms_ids_published_or_texted:
  "length (sms_ids (fst (published_or_texted cfg bind_other pub send env m db))) \<le> 1"
  using sms_ids_send_sms by (auto simp: published_or_texted_def sms_ids_def Let_def split: sum.splits prod.splits)

lemma sms_ids_iteration: "length (sms_ids (fst (send_iteration cfg bind_other pub send env db))) \<le> 1"
  using sms_ids_published_or_texted
  by (auto simp: send_iteration_eq sms_ids_send_sms split: sum.split option.split prod.split) (simp_all add: sms_ids_def)

text \<open>An \<open>acquire\<close> that returns has used some first readings, and granted one slot at the last of them.\<close>

lemma acquire_granted:
  "acquire readings l = Some (at, l') \<Longrightarrow>
   \<exists>used rest. readings = used @ rest \<and> (\<forall>more. granted (used @ more) l = at # granted more l')"
proof (induction readings l rule: acquire.induct)
  case (2 now readings l)
  show ?case
  proof (cases "acquire_pass now l")
    case (Acquired l1)
    with 2(2) show ?thesis by (intro exI [of _ "[now]"] exI [of _ readings]) simp
  next
    case (Waiting d l1)
    then obtain used rest where "readings = used @ rest" "\<forall>more. granted (used @ more) l1 = at # granted more l'"
      using 2 by auto
    with Waiting show ?thesis by (intro exI [of _ "now # used"] exI [of _ rest]) simp
  qed (use 2(2) in simp)
qed simp

lemma texts_granted:
  "sorted (concat (map snd turns)) \<Longrightarrow>
   \<exists>rs. sorted rs \<and> set rs \<subseteq> set (concat (map snd turns)) \<and> map fst (texts cfg bind_other turns l db) = granted rs l"
proof (induction cfg bind_other turns l db rule: texts.induct)
  case (2 cfg bind_other env pub send readings turns l db)
  obtain effects db' where it: "send_iteration cfg bind_other pub send env db = (effects, db')" by fastforce
  have tl: "sorted (concat (map snd turns))" using "2.prems" by (simp add: sorted_append)
  show ?case
  proof (cases "sms_ids effects")
    case Nil
    from "2.IH"(1) [OF it [symmetric] refl Nil tl] show ?thesis using it Nil by fastforce
  next
    case (Cons i more_ids)
    show ?thesis
    proof (cases "acquire readings l")
      case None
      then show ?thesis using it Cons by (intro exI [of _ "[]"]) simp
    next
      case (Some p)
      obtain at l' where p: "p = (at, l')" by (cases p)
      obtain used rest where u: "readings = used @ rest" "\<forall>more. granted (used @ more) l = at # granted more l'"
        using acquire_granted Some p by blast
      obtain rs where rs: "sorted rs" "set rs \<subseteq> set (concat (map snd turns))"
        "map fst (texts cfg bind_other turns l' db') = granted rs l'"
        using "2.IH"(2) [OF it [symmetric] refl Cons Some p [symmetric] tl] by blast
      have "sorted (used @ rs)" using "2.prems" rs u(1) by (fastforce simp: sorted_append)
      moreover have "set (used @ rs) \<subseteq> set (concat (map snd ((((env, pub, send), readings)) # turns)))"
        using rs(2) u(1) by auto
      ultimately show ?thesis using it Cons Some p u(2) rs(3) by (intro exI [of _ "used @ rs"]) simp
    qed
  qed
qed (auto intro: exI [of _ "[]"])

lemma texts_prefix:
  "\<exists>later. sms_ids (fst (send_loop cfg bind_other (map fst turns) db)) = map snd (texts cfg bind_other turns l db) @ later"
proof (induction cfg bind_other turns l db rule: texts.induct)
  case (2 cfg bind_other env pub send readings turns l db)
  obtain effects db' where it: "send_iteration cfg bind_other pub send env db = (effects, db')" by fastforce
  have run: "sms_ids (fst (send_loop cfg bind_other (map fst ((((env, pub, send), readings)) # turns)) db)) =
      sms_ids effects @ sms_ids (fst (send_loop cfg bind_other (map fst turns) db'))"
    using it by (simp add: sms_ids_append split: prod.split)
  show ?case
  proof (cases "sms_ids effects")
    case Nil
    from "2.IH"(1) [OF it [symmetric] refl Nil] show ?thesis using run it Nil by simp
  next
    case (Cons i more_ids)
    then have one: "sms_ids effects = [i]"
      using sms_ids_iteration [of cfg bind_other pub send env db] it by simp
    show ?thesis
    proof (cases "acquire readings l")
      case None
      then show ?thesis using run it Cons by simp
    next
      case (Some p)
      obtain at l' where p: "p = (at, l')" by (cases p)
      from "2.IH"(2) [OF it [symmetric] refl Cons Some p [symmetric]] show ?thesis
        using run it one Some p by simp
    qed
  qed
qed (simp add: sms_ids_def)

subsection \<open>Properties\<close>

text \<open>
  C25. The phone is never flooded: however many messages are queued and whatever the answers,
  a run of the send loop with the limiter hands at most the configured number of texts (at least one) to
  the provider in any window of sixty seconds, on a clock that does not go back. The texts are those of
  the loop, in its order, up to the one that waits for its slot.
\<close>

theorem texts_per_minute:
  assumes "sorted (concat (map snd turns))"
    and "sent_texts = texts cfg bind_other turns (new_limiter (rate_limit_per_minute cfg)) db"
  shows "int (length (filter (\<lambda>(at, _). a \<le> at \<and> at < a + seconds 60) sent_texts)) \<le> max 1 (rate_limit_per_minute cfg) \<and>
    (\<exists>later. sms_ids (fst (send_loop cfg bind_other (map fst turns) db)) = map snd sent_texts @ later)"
proof
  obtain rs where "sorted rs" "map fst sent_texts = granted rs (new_limiter (rate_limit_per_minute cfg))"
    using texts_granted [OF assms(1)] assms(2) by blast
  then have "int (in_window a (map fst sent_texts)) \<le> max 1 (rate_limit_per_minute cfg)"
    using granted_in_window by simp
  then show "int (length (filter (\<lambda>(at, _). a \<le> at \<and> at < a + seconds 60) sent_texts)) \<le> max 1 (rate_limit_per_minute cfg)"
    by (simp add: in_window_def filter_map comp_def split_def)
  show "\<exists>later. sms_ids (fst (send_loop cfg bind_other (map fst turns) db)) = map snd sent_texts @ later"
    using texts_prefix assms(2) by blast
qed


definition two_turns :: "(turn \<times> instant list) list" where
  "two_turns =
     [((sample_env, \<lambda>_. Inl (HTTPError []), \<lambda>_ _. Inr (JStr ''g1'')), [5]),
      ((sample_env, \<lambda>_. Inl (HTTPError []), \<lambda>_ _. Inr (JStr ''g2'')), [7, 60000005])]"

definition two_messages :: database where
  "two_messages = \<lparr>messages = [sample_message\<lparr>mid := ''m2'', created_at := 3\<rparr>, sample_message], deliveries = []\<rparr>"

lemma two_texts:
  "texts (sample_config\<lparr>rate_limit_per_minute := 1\<rparr>) (\<lambda>_. Inl JSONDecodeError) two_turns (new_limiter 1) two_messages =
     [(5, ''m1''), (60000005, ''m2'')]"
  by code_simp

theorem texts_per_minute_witness:
  "texts (sample_config\<lparr>rate_limit_per_minute := 1\<rparr>) (\<lambda>_. Inl JSONDecodeError) two_turns (new_limiter 1) two_messages =
     [(5, ''m1''), (60000005, ''m2'')] \<and>
   (\<exists>later. sms_ids (fst (send_loop (sample_config\<lparr>rate_limit_per_minute := 1\<rparr>) (\<lambda>_. Inl JSONDecodeError)
      (map fst two_turns) two_messages)) = [''m1'', ''m2''] @ later)"
proof -
  have "sorted (concat (map snd two_turns))" by (simp add: two_turns_def)
  from texts_per_minute [OF this refl, where cfg = "sample_config\<lparr>rate_limit_per_minute := 1\<rparr>"
      and bind_other = "\<lambda>_. Inl JSONDecodeError" and db = two_messages]
  show ?thesis using two_texts by simp
qed

text \<open>
  C15. Every loop ends soon after the stop event: if no turn of a loop takes longer than some
  limit, then each of the four tasks, started before the event is set, returns, not
  before it is set and at most that limit after, however long its polling interval is (six
  hours for the prune loop). Turns are counted by the microsecond: as many as there are
  to the event are enough.
\<close>

theorem loops_stop_promptly:
  assumes "now \<le> stop" and "0 \<le> limit"
    and "\<forall>turn \<in> set sends. 1 \<le> fst turn \<and> fst turn \<le> limit" "nat (stop - now) \<le> length sends"
    and "\<forall>turn \<in> set polls. 1 \<le> fst turn \<and> fst turn \<le> limit" "nat (stop - now) \<le> length polls"
    and "\<forall>turn \<in> set fans. 1 \<le> fst turn \<and> fst turn \<le> limit" "nat (stop - now) \<le> length fans"
    and "\<forall>turn \<in> set prunes. 1 \<le> fst turn \<and> fst turn \<le> limit" "nat (stop - now) \<le> length prunes"
  shows "(\<exists>e db'. send_task cfg bind_other (Some stop) sends now db = Some (e, db') \<and> stop \<le> e \<and> e \<le> stop + limit) \<and>
    (\<exists>e db'. status_task fetch (Some stop) polls now db = Some (e, db') \<and> stop \<le> e \<and> e \<le> stop + limit) \<and>
    (\<exists>e db'. fanout_task (Some stop) fans now db = Some (e, db') \<and> stop \<le> e \<and> e \<le> stop + limit) \<and>
    (\<exists>e db'. prune_task cfg (Some stop) prunes now db = Some (e, db') \<and> stop \<le> e \<and> e \<le> stop + limit)"
proof (intro conjI)
  show "\<exists>e db'. send_task cfg bind_other (Some stop) sends now db = Some (e, db') \<and> stop \<le> e \<and> e \<le> stop + limit"
    unfolding send_task_def split_def
    by (intro work_first_stops turns_take_at_most) (use assms in \<open>simp_all add: SEND_POLL_SECONDS_def\<close>)
  show "\<exists>e db'. status_task fetch (Some stop) polls now db = Some (e, db') \<and> stop \<le> e \<and> e \<le> stop + limit"
    unfolding status_task_def split_def
    by (intro sleep_first_stops turns_take_at_most) (use assms in \<open>simp_all add: STATUS_POLL_SECONDS_def\<close>)
  show "\<exists>e db'. fanout_task (Some stop) fans now db = Some (e, db') \<and> stop \<le> e \<and> e \<le> stop + limit"
    unfolding fanout_task_def split_def
    by (intro work_first_stops turns_take_at_most) (use assms in \<open>simp_all add: FANOUT_POLL_SECONDS_def\<close>)
  show "\<exists>e db'. prune_task cfg (Some stop) prunes now db = Some (e, db') \<and> stop \<le> e \<and> e \<le> stop + limit"
    unfolding prune_task_def split_def
    by (intro sleep_first_stops turns_take_at_most) (use assms in \<open>simp_all add: PRUNE_INTERVAL_SECONDS_def\<close>)
qed

theorem loops_stop_promptly_witness:
  "\<exists>e db'. send_task sample_config (\<lambda>_. Inl JSONDecodeError) (Some 1)
      [(3, sample_env, \<lambda>_. Inl (HTTPError []), \<lambda>_ _. Inr (JStr ''g1''))] 0 ntfy_db = Some (e, db') \<and> 1 \<le> e \<and> e \<le> 6"
  using loops_stop_promptly
    [of 0 1 5 "[(3, sample_env, \<lambda>_. Inl (HTTPError []), \<lambda>_ _. Inr (JStr ''g1''))]" "[(1, 0, \<lambda>_. 0)]"
        "[(1, \<lambda>d m. Inr d, 0, \<lambda>_. 0)]" "[(1, 0)]" sample_config "\<lambda>_. Inl JSONDecodeError" ntfy_db "\<lambda>_. Inr None"]
  by simp

text \<open>
  The limit a send needs is not below ten seconds, the time shutdown gives: with one slot a
  minute taken a second ago, \<open>acquire\<close> sleeps 59 seconds, and its sleep does not see the event.
  The message is claimed by then, so the cancelled loop leaves its row in sending.
\<close>

lemma slot_wait_outlasts_shutdown:
  "acquire_pass (seconds 1) \<lparr>rl_per_minute = 1, rl_sent = [0]\<rparr> =
     Waiting (seconds 59) \<lparr>rl_per_minute = 1, rl_sent = [0]\<rparr> \<and> seconds 10 < seconds 59"
  by (simp add: acquire_pass_def drop_expired_def seconds_def)

end
