(* ===== verification/Engine.thy ===== *)
theory Engine
  imports Db Config
begin

section \<open>The engine (db.py)\<close>

text \<open>
  The module's two globals and what fills them: the engine is created at the first use, after
  its directory, with the pragmas every connection runs; the session factory is made over it.
  An engine stands for its URL and pragmas. \<open>mkdir\<close> is \<open>Path.mkdir(parents=True, exist_ok=True)\<close>.
\<close>

record engine =
  en_url :: string
  en_pragmas :: "(string \<times> string) list"

record db_globals =
  g_engine :: "engine option"
  g_sessionmaker :: "engine option"

definition db_url :: "config \<Rightarrow> string" where
  "db_url cfg = ''sqlite+aiosqlite:///'' @ db_path cfg"

text \<open>\<open>Path(p).parent\<close>, up to its spelling.\<close>

definition parent_dir :: "string \<Rightarrow> string" where
  "parent_dir p =
     (let dir = dropWhile_end (\<lambda>c. c \<noteq> CHR ''/'') (rstrip_slash p)
      in if dir = [] then ''.''
         else if rstrip_slash dir = [] then ''/'' else rstrip_slash dir)"

definition PRAGMAS :: "(string \<times> string) list" where
  "PRAGMAS =
     [(''journal_mode'', ''WAL''), (''synchronous'', ''NORMAL''), (''foreign_keys'', ''ON''), (''busy_timeout'', ''5000'')]"

definition get_engine :: "(string \<Rightarrow> unit res) \<Rightarrow> config \<Rightarrow> db_globals \<Rightarrow> (engine \<times> db_globals) res" where
  "get_engine mkdir cfg g =
     (case g_engine g of
        Some e \<Rightarrow> Inr (e, g)
      | None \<Rightarrow>
          rbind (mkdir (parent_dir (db_path cfg))) (\<lambda>_.
            let e = \<lparr>en_url = db_url cfg, en_pragmas = PRAGMAS\<rparr>
            in Inr (e, g\<lparr>g_engine := Some e\<rparr>)))"

definition get_sessionmaker :: "(string \<Rightarrow> unit res) \<Rightarrow> config \<Rightarrow> db_globals \<Rightarrow> (engine \<times> db_globals) res" where
  "get_sessionmaker mkdir cfg g =
     (case g_sessionmaker g of
        Some e \<Rightarrow> Inr (e, g)
      | None \<Rightarrow> rbind (get_engine mkdir cfg g) (\<lambda>(e, g'). Inr (e, g'\<lparr>g_sessionmaker := Some e\<rparr>)))"

text \<open>\<open>init_db\<close> with the engine it gets first.\<close>

definition start_database ::
  "(string \<Rightarrow> unit res) \<Rightarrow> config \<Rightarrow> db_globals \<Rightarrow> schema \<Rightarrow> (db_globals \<times> schema) res"
where
  "start_database mkdir cfg g s = rbind (get_engine mkdir cfg g) (\<lambda>(e, g'). Inr (g', init_db s))"

text \<open>
  The \<open>DELETE\<close> of the prune loop, and what the connection makes of the deliveries' foreign key:
  SQLite cascades only where the pragma is on.
\<close>

definition sql_delete :: "engine \<Rightarrow> (message \<Rightarrow> bool) \<Rightarrow> database \<Rightarrow> database" where
  "sql_delete e P db =
     (if (''foreign_keys'', ''ON'') \<in> set (en_pragmas e) then delete_messages P db
      else db\<lparr>messages := filter (\<lambda>m. \<not> P m) (messages db)\<rparr>)"

subsection \<open>Facts\<close>

definition globals_ok :: "config \<Rightarrow> db_globals \<Rightarrow> bool" where
  "globals_ok cfg g \<longleftrightarrow>
     (\<forall>e. g_engine g = Some e \<longrightarrow> e = \<lparr>en_url = db_url cfg, en_pragmas = PRAGMAS\<rparr>) \<and>
     (g_sessionmaker g = None \<or> g_sessionmaker g = g_engine g)"

lemma globals_ok_cold: "globals_ok cfg \<lparr>g_engine = None, g_sessionmaker = None\<rparr>"
  by (simp add: globals_ok_def)

text \<open>One engine for the life of the process: whatever is asked for first, every session is over it.\<close>

lemma get_engine_once:
  assumes "get_engine mkdir cfg g = Inr (e, g')" and "globals_ok cfg g"
  shows "e = \<lparr>en_url = db_url cfg, en_pragmas = PRAGMAS\<rparr>" and "globals_ok cfg g'"
    and "get_engine mkdir' cfg g' = Inr (e, g')" and "g_engine g' = Some e"
  using assms by (auto simp: get_engine_def globals_ok_def Let_def res_simps split: option.splits)

lemma get_sessionmaker_once:
  assumes "get_sessionmaker mkdir cfg g = Inr (e, g')" and "globals_ok cfg g"
  shows "e = \<lparr>en_url = db_url cfg, en_pragmas = PRAGMAS\<rparr>" and "globals_ok cfg g'"
    and "get_sessionmaker mkdir' cfg g' = Inr (e, g')" and "get_engine mkdir' cfg g' = Inr (e, g')"
  using assms
  by (auto simp: get_sessionmaker_def get_engine_def globals_ok_def Let_def res_simps split: option.splits)

text \<open>Deleting messages keeps the tables consistent because of the pragma: without it a delivery is left behind.\<close>

lemma sql_delete_ok:
  assumes "get_sessionmaker mkdir cfg g = Inr (e, g')" and "globals_ok cfg g" and "db_ok db"
  shows "sql_delete e P db = delete_messages P db \<and> db_ok (sql_delete e P db)"
  using get_sessionmaker_once(1) [OF assms(1,2)] delete_messages_ok [OF assms(3)]
  by (simp add: sql_delete_def PRAGMAS_def)

lemma no_pragma_orphans:
  assumes "(''foreign_keys'', ''ON'') \<notin> set (en_pragmas e)" and "d \<in> set (deliveries db)"
    and "\<forall>m \<in> set (messages db). mid m = d_message_id d \<longrightarrow> P m"
  shows "\<not> db_ok (sql_delete e P db)"
proof -
  have "d_message_id d \<notin> mid ` {m \<in> set (messages db). \<not> P m}" using assms(3) by auto
  with assms(1,2) show ?thesis by (auto simp: sql_delete_def db_ok_def deliveries_ok_def list_all_iff)
qed

lemma parent_dirs:
  "parent_dir ''/data/sms-relay.db'' = ''/data''" "parent_dir ''/x.db'' = ''/''" "parent_dir ''x.db'' = ''.''"
  by code_simp+

end
