(* ===== verification/Lifespan.thy ===== *)
theory Lifespan
  imports LifeCycle Service Engine
begin

section \<open>Start-up and shutdown (main.py, providers/__init__.py, metrics.py)\<close>

text \<open>
  \<open>lifespan\<close> around the service: the steps of start-up that can fail, the four tasks, and the
  shutdown that gives the loops ten seconds before cancelling them. The rest of the theory
  is about what such a restart leaves behind: a loop that reaches its test of the stop event
  holds no message, so only a cancelled send leaves a row in sending.
\<close>

subsection \<open>The process-wide provider\<close>

definition cached_provider :: "provider res \<Rightarrow> provider option \<Rightarrow> (provider \<times> provider option) res" where
  "cached_provider made cache =
     (case cache of
        Some p \<Rightarrow> Inr (p, cache)
      | None \<Rightarrow> rbind made (\<lambda>p. Inr (p, Some p)))"

definition close_provider :: "provider option \<Rightarrow> provider option" where
  "close_provider cache = None"

subsection \<open>Start-up\<close>

definition metrics_port :: "environ \<Rightarrow> int res" where
  "metrics_port environ =
     (case py_int (strip (case environ ''SMS_RELAY_METRICS_PORT'' of None \<Rightarrow> ''9105'' | Some v \<Rightarrow> v)) of
        None \<Rightarrow> Inl (ValueError ''invalid literal for int() with base 10'')
      | Some n \<Rightarrow> Inr n)"

text \<open>\<open>bind\<close> opens the listening socket of the metrics server.\<close>

definition metrics_start :: "(int \<Rightarrow> unit res) \<Rightarrow> environ \<Rightarrow> unit res" where
  "metrics_start bind environ = rbind (metrics_port environ) bind"

datatype task = SendTask | StatusTask | FanoutTask | PruneTask

record app =
  app_metrics :: bool
  app_stop :: bool
  app_tasks :: "task list"
  app_provider :: "provider option"
  app_relay :: relay

text \<open>
  Up to the \<open>yield\<close>. An exception keeps the application from serving; the last one that can
  come is that of the log line, which reads the subscribers after the tasks were created.
\<close>

definition lifespan_start ::
  "(http_request \<Rightarrow> response res) \<Rightarrow> (string \<Rightarrow> string \<Rightarrow> unit res) \<Rightarrow> string \<Rightarrow> string \<Rightarrow>
   (string \<Rightarrow> unit res) \<Rightarrow> (int \<Rightarrow> unit res) \<Rightarrow> environ \<Rightarrow> config \<Rightarrow> db_globals \<Rightarrow> provider option \<Rightarrow> relay \<Rightarrow> schema \<Rightarrow>
   (app \<times> db_globals \<times> schema) res"
where
  "lifespan_start net wr stamp uuid mkdir bind environ cfg g cache s schema =
     rbind (start_database mkdir cfg g schema) (\<lambda>(g', schema').
     rbind (cached_provider (get_provider net wr stamp uuid cfg) cache) (\<lambda>(p, cache').
     rbind (metrics_start bind environ) (\<lambda>_.
         let app = \<lparr>app_metrics = True, app_stop = False,
                    app_tasks = [SendTask, StatusTask, FanoutTask, PruneTask],
                    app_provider = cache', app_relay = s\<lparr>pc := AtTop\<rparr>\<rparr>
         in rbind (subscribers cfg) (\<lambda>_. Inr (app, g', schema')))))"

text \<open>A subscriber list that raises keeps the application from starting, sends included.\<close>

lemma bad_subscribers_stop_start_up:
  "subscribers cfg = Inl e \<Longrightarrow> start_database mkdir cfg g schema = Inr db \<Longrightarrow> get_provider net wr stamp uuid cfg = Inr p \<Longrightarrow>
   metrics_start bind environ = Inr () \<Longrightarrow>
   lifespan_start net wr stamp uuid mkdir bind environ cfg g None s schema = Inl e"
  by (cases db) (simp add: lifespan_start_def cached_provider_def)

subsection \<open>Shutdown\<close>

text \<open>
  The \<open>finally\<close> block, from the state at which \<open>asyncio.wait\<close> returns: \<open>finished\<close> tells which
  loops ended by themselves within the ten seconds; the others are cancelled. A cancelled send loop
  loses what it held, as in a crash; the other loops hold nothing between their steps.
\<close>

definition lifespan_stop :: "(task \<Rightarrow> bool) \<Rightarrow> app \<Rightarrow> app" where
  "lifespan_stop finished app =
     (let pending = filter (\<lambda>t. \<not> finished t) (app_tasks app)
      in \<lparr>app_metrics = False, app_stop = True, app_tasks = [],
          app_provider = close_provider (app_provider app),
          app_relay = (if SendTask \<in> set pending then (app_relay app)\<lparr>pc := AtTop\<rparr> else app_relay app)\<rparr>)"

subsection \<open>Orderly runs\<close>

text \<open>
  A step abandons the held message when the loop goes back to the top without a commit: a
  crash, a cancellation, or an exception the loop only logs.
\<close>

definition abandons :: "relay \<Rightarrow> relay \<Rightarrow> bool" where
  "abandons s s' \<longleftrightarrow> held (pc s) \<noteq> None \<and> pc s' = AtTop \<and> past s' = past s"

inductive orderly :: "'n externals \<Rightarrow> config \<Rightarrow> relay \<Rightarrow> bool" for X cfg where
  init: "startable cfg d \<Longrightarrow> \<forall>m \<in> set (messages d). status m \<noteq> SENDING \<Longrightarrow> orderly X cfg (start d)"
| step: "orderly X cfg s \<Longrightarrow> relay_step X cfg s s' \<Longrightarrow> \<not> abandons s s' \<Longrightarrow> orderly X cfg s'"

lemma orderly_reachable: "orderly X cfg s \<Longrightarrow> relay_reachable X cfg s"
  by (induction rule: orderly.induct) (auto intro: relay_reachable.intros)

definition only_held_sending :: "relay \<Rightarrow> bool" where
  "only_held_sending s \<longleftrightarrow>
     (\<forall>m \<in> set (messages (current s)). status m = SENDING \<longrightarrow> held (pc s) = Some (mid m)) \<and>
     (\<forall>old new. pc s = Storing old new False \<longrightarrow> status new \<noteq> SENDING)"

lemma bystander_only_held:
  assumes byst: "bystander cfg F op" and inv: "relay_inv cfg s" and d0: "d0 \<in> seen s"
    and oh: "only_held_sending s"
  shows "only_held_sending (advance (op d0 (current s)) s)"
proof -
  have "bystands F (current s) (op d0 (current s))"
    using inv d0 by (intro bystander.op_bystands [OF byst]) (auto simp: relay_inv_def)
  then have "m \<in> set (messages (current s))" if "m \<in> set (messages (op d0 (current s)))" "status m = SENDING" for m
    using that unfolding bystands_def by (auto simp: added_row_def inactive_change_def active_def)
  then show ?thesis using oh by (auto simp: only_held_sending_def)
qed

lemma claim_sending:
  assumes inv: "relay_inv cfg s" and p: "pc s = Claiming d0" and none: "only_held_sending s"
    and cl: "claim_next now t d0 (current s) = Inr (Some m, d')"
    and r: "r \<in> set (messages d')" "status r = SENDING"
  shows "mid r = mid m"
  using cl
proof (rule claim_next_Some)
  fix m0
  assume m0: "m0 \<in> set (messages d0)" "is_due now m0" "m = claimed now (t (mid m0)) m0"
    and c: "commit_messages t [(m0, m0\<lparr>status := SENDING, updated_at := now\<rparr>)] (current s) = Inr d'"
  have "m0 \<in> set (messages (current s))" "db_ok (current s)"
    using inv p m0 by (auto simp: relay_inv_def pc_ok_def holds_def active_def is_due_def tables_ok_def)
  from commit_row_origin [OF this(2) c _ _ r(1)] this(1)
  consider "r \<in> set (messages (current s))"
    | "r = msg.written t (m0, m0\<lparr>status := SENDING, updated_at := now\<rparr>)" by auto
  then show ?thesis
    using none p m0(3) r(2) by cases (auto simp: only_held_sending_def msg.key_written)
qed

lemma stored_sending:
  assumes inv: "relay_inv cfg s" and p: "pc s = Storing old new go" and oh: "only_held_sending s"
    and c: "commit_messages t [(old, new)] (current s) = Inr d'"
    and r: "r \<in> set (messages d')" "status r = SENDING"
  shows "go \<and> mid r = mid old"
proof -
  have old: "old \<in> set (messages (current s))" "db_ok (current s)" "store_ok cfg s old new go"
    using inv p by (auto simp: relay_inv_def pc_ok_def tables_ok_def)
  from commit_row_origin [OF old(2) c _ _ r(1)] old(1)
  consider "r \<in> set (messages (current s))" "mid r \<noteq> mid old" | "r = msg.written t (old, new)" by auto
  then show ?thesis
  proof cases
    case 1
    then show ?thesis using oh p r(2) by (auto simp: only_held_sending_def)
  next
    case 2
    then have "r = new\<lparr>updated_at := t (mid old)\<rparr>"
      using old(3) by (simp add: msg.written_def message_changes_self store_ok_def)
    then show ?thesis using oh p r(2) old(3) by (cases go) (auto simp: only_held_sending_def store_ok_def)
  qed
qed

lemma requeue_none_sending:
  assumes inv: "relay_inv cfg s" and p: "pc s = Requeuing d0" and oh: "only_held_sending s"
    and rq: "requeue_stuck cfg now due t d0 (current s) = Inr d'"
  shows "d' = current s"
proof -
  have "filter (is_stuck (now - seconds (stuck_after_seconds cfg))) (messages d0) = []"
    using inv p oh by (auto simp: filter_empty_conv is_stuck_def relay_inv_def pc_ok_def holds_def active_def only_held_sending_def)
  then show ?thesis using rq by (simp add: requeue_stuck_def)
qed

lemma orderly_step:
  "relay_step X cfg s s' \<Longrightarrow> relay_inv cfg s \<Longrightarrow> only_held_sending s \<Longrightarrow> \<not> abandons s s' \<Longrightarrow> only_held_sending s'"
proof (induction rule: relay_step.induct)
  case (api_send d0 s fresh r svc)
  then show ?case by (intro bystander_only_held [OF api_send.bystander_axioms])
next
  case (inbound d0 s seed xs xh raw)
  then show ?case by (intro bystander_only_held [OF inbound.bystander_axioms])
next
  case (poll_status d0 s net wr stamp uuid now t)
  then show ?case using bystander_only_held [OF status_poll.bystander_axioms] by simp
next
  case (fan_out d0 s net tn now t)
  then show ?case by (intro bystander_only_held [OF fanout.bystander_axioms]) auto
next
  case (pruned s now)
  then show ?case
    using bystander_only_held [OF pruning.bystander_axioms, of cfg s "current s"] by (simp add: seen_def)
next
  case (requeue_commit s d0 now due t d')
  then show ?case using requeue_none_sending [OF requeue_commit(3,1,4,2)] by (auto simp: only_held_sending_def)
next
  case (claim_none s d0 now t d')
  then show ?case by (auto dest!: claim_next_None simp: only_held_sending_def)
next
  case (claim_some s d0 now t m d')
  then show ?case using claim_sending [OF claim_some(3,1,4,2)] by (auto simp: only_held_sending_def)
next
  case (publish_ok s m receipt now)
  then show ?case by (auto simp: only_held_sending_def published_def)
next
  case (texted s m result now m')
  then show ?case
    by (auto simp: only_held_sending_def after_send_def sent_def send_failure_def Let_def res_simps
        split: sum.splits exn.splits if_splits)
next
  case (stored s old new go t d')
  then show ?case using stored_sending [OF stored(3,1,4,2)] by (auto simp: only_held_sending_def)
qed (auto simp: only_held_sending_def abandons_def)

lemma orderly_only_held: "orderly X cfg s \<Longrightarrow> only_held_sending s"
proof (induction rule: orderly.induct)
  case (init d)
  then show ?case by (simp add: only_held_sending_def start_def)
next
  case (step s s')
  then show ?case using orderly_step reachable_inv [OF orderly_reachable] by blast
qed

lemma held_inj:
  assumes "db_ok (current s)" and "only_held_sending s" and "m \<in> set (messages (current s))" "status m = SENDING"
    and "m' \<in> set (messages (current s))" "status m' = SENDING"
  shows "m = m'"
proof -
  have "Some (mid m) = Some (mid m')" using assms(2-6) unfolding only_held_sending_def by metis
  then show ?thesis using distinct_map_eqD [OF db_ok_distinct [OF assms(1)]] assms(3,5) by blast
qed

lemma requeue_leaves_none:
  assumes "db_ok d" and "\<forall>m \<in> set (messages d). status m = SENDING \<longrightarrow> updated_at m < now - seconds (stuck_after_seconds cfg)"
  shows "\<exists>d'. requeue_stuck cfg now due t d d = Inr d' \<and> (\<forall>m \<in> set (messages d'). status m \<noteq> SENDING)"
proof -
  obtain d' where d': "requeue_stuck cfg now due t d d = Inr d'"
    "set (messages d') = {m \<in> set (messages d). \<not> is_stuck (now - seconds (stuck_after_seconds cfg)) m} \<union>
      requeued due t ` {m \<in> set (messages d). is_stuck (now - seconds (stuck_after_seconds cfg)) m}"
    using requeue_stuck_rows [OF assms(1)] by blast
  have "status m \<noteq> SENDING" if "m \<in> set (messages d')" for m
    using that assms(2) unfolding d'(2) by (auto simp: is_stuck_def requeued_def)
  with d'(1) show ?thesis by blast
qed

subsection \<open>Properties\<close>

text \<open>
  C14. A restart strands at most the message in flight. If no step so far abandoned a
  message, then after shutdown no task runs, the tables are as they were, at most one row is
  sending, and none if the send loop ended by itself (which it does only at its test of the
  stop event); and stuck_after_seconds later the first requeue of the next start leaves none.
\<close>

theorem restart_strands_at_most_one:
  assumes "orderly X cfg (app_relay app)" and "finished SendTask \<Longrightarrow> pc (app_relay app) = AtTop"
    and "app' = lifespan_stop finished app" and "d = current (app_relay app')"
  shows "app_tasks app' = [] \<and> d = current (app_relay app) \<and>
    (finished SendTask \<longrightarrow> (\<forall>m \<in> set (messages d). status m \<noteq> SENDING)) \<and>
    (\<forall>m \<in> set (messages d). \<forall>m' \<in> set (messages d). status m = SENDING \<and> status m' = SENDING \<longrightarrow> m = m') \<and>
    ((\<forall>m \<in> set (messages d). status m = SENDING \<longrightarrow> updated_at m < now - seconds (stuck_after_seconds cfg)) \<longrightarrow>
      (\<exists>d'. requeue_stuck cfg now due t d d = Inr d' \<and> (\<forall>m \<in> set (messages d'). status m \<noteq> SENDING)))"
proof (intro conjI)
  have oh: "only_held_sending (app_relay app)" by (rule orderly_only_held [OF assms(1)])
  show "app_tasks app' = []" and d: "d = current (app_relay app)"
    using assms(3,4) by (auto simp: lifespan_stop_def Let_def)
  have db: "db_ok d"
    using reachable_inv [OF orderly_reachable [OF assms(1)]] by (simp add: d relay_inv_def tables_ok_def)
  show "finished SendTask \<longrightarrow> (\<forall>m \<in> set (messages d). status m \<noteq> SENDING)"
    using oh assms(2) by (auto simp: d only_held_sending_def)
  show "\<forall>m \<in> set (messages d). \<forall>m' \<in> set (messages d). status m = SENDING \<and> status m' = SENDING \<longrightarrow> m = m'"
    using held_inj [OF db [unfolded d] oh] by (simp add: d)
  show "(\<forall>m \<in> set (messages d). status m = SENDING \<longrightarrow> updated_at m < now - seconds (stuck_after_seconds cfg)) \<longrightarrow>
      (\<exists>d'. requeue_stuck cfg now due t d d = Inr d' \<and> (\<forall>m \<in> set (messages d'). status m \<noteq> SENDING))"
    using requeue_leaves_none [OF db] by blast
qed

theorem restart_strands_at_most_one_witness:
  "\<exists>s m d'. orderly sample_externals sample_config s \<and> pc s = Publishing m \<and>
     (let app = lifespan_stop (\<lambda>t. t \<noteq> SendTask) \<lparr>app_metrics = True, app_stop = False,
                  app_tasks = [SendTask, StatusTask, FanoutTask, PruneTask], app_provider = None, app_relay = s\<rparr>
      in m \<in> set (messages (current (app_relay app))) \<and> status m = SENDING \<and>
         requeue_stuck sample_config (6 + seconds (stuck_after_seconds sample_config)) (\<lambda>_. 7) (\<lambda>_. 7)
           (current (app_relay app)) (current (app_relay app)) = Inr d' \<and>
         (\<forall>r \<in> set (messages d'). status r \<noteq> SENDING))"
proof -
  obtain s m where s: "orderly sample_externals sample_config s" "pc s = Publishing m" "updated_at m = 5"
  proof (rule sample_publishing [of "orderly sample_externals sample_config"])
    show "orderly sample_externals sample_config (start ntfy_db)"
      using ntfy_db_startable by (intro orderly.init) (simp_all add: ntfy_db_def ntfy_message_def sample_row)
  qed (auto intro: orderly.step simp: abandons_def)
  have m: "m \<in> set (messages (current s))" "status m = SENDING"
    using reachable_inv [OF orderly_reachable [OF s(1)]] s(2) by (auto simp: relay_inv_def pc_ok_def)
  define app where "app = \<lparr>app_metrics = True, app_stop = False,
    app_tasks = [SendTask, StatusTask, FanoutTask, PruneTask], app_provider = None, app_relay = s\<rparr>"
  define d where "d = current (app_relay (lifespan_stop (\<lambda>t. t \<noteq> SendTask) app))"
  have o: "orderly sample_externals sample_config (app_relay app)" using s(1) by (simp add: app_def)
  note r = restart_strands_at_most_one [OF o _ refl d_def, where now = "6 + seconds (stuck_after_seconds sample_config)"
      and due = "\<lambda>_. 7" and t = "\<lambda>_. 7"]
  have "d = current s" using r by (simp add: app_def)
  moreover from this have "\<forall>r \<in> set (messages d). status r = SENDING \<longrightarrow>
      updated_at r < 6 + seconds (stuck_after_seconds sample_config) - seconds (stuck_after_seconds sample_config)"
  proof (intro ballI impI)
    fix x assume "x \<in> set (messages d)" "status x = SENDING"
    then have "x = m" using r m \<open>d = current s\<close> by simp
    then show "updated_at x < 6 + seconds (stuck_after_seconds sample_config) - seconds (stuck_after_seconds sample_config)" using s(3) by simp
  qed
  then have "\<exists>d'. requeue_stuck sample_config (6 + seconds (stuck_after_seconds sample_config)) (\<lambda>_. 7) (\<lambda>_. 7) d d = Inr d' \<and>
      (\<forall>r \<in> set (messages d'). status r \<noteq> SENDING)" using r by blast
  ultimately show ?thesis using s(1,2) m unfolding d_def app_def by (auto simp: Let_def)
qed

end
