(* ===== verification/EndToEnd.thy ===== *)
theory EndToEnd
  imports Drain Fanout Inbound Grafana Auth
begin

section \<open>From end to end (the routes with their guards, and the loops behind them)\<close>

text \<open>
  The routes as FastAPI runs them: the \<open>Depends\<close> of the signature first, so an unknown caller
  gets 401 whatever fields it sent, then the constraints of the body, then the handler. The
  properties follow one message from its POST through an iteration of the send loop to the
  GET that reports it, and one from the handset's event to the subscribers.
\<close>

definition post_messages ::
  "'n phonelib \<Rightarrow> (string \<Rightarrow> string \<Rightarrow> bool res) \<Rightarrow> config \<Rightarrow> string option \<Rightarrow> string option \<Rightarrow> send_request \<Rightarrow>
   (nat \<Rightarrow> row_seed) \<Rightarrow> database \<Rightarrow> database \<Rightarrow> database \<Rightarrow> message_out list res \<times> database"
where
  "post_messages lib re_search cfg authorization x_api_key r fresh db0 db1 db2 =
     (case require_api_key cfg authorization x_api_key of
        Inl e \<Rightarrow> (Inl e, db1)
      | Inr svc \<Rightarrow>
          if \<not> send_request_valid r then (Inl (HTTPException 422 ''validation error''), db1)
          else send_message lib re_search cfg r svc fresh db0 db1 db2)"

definition get_messages_id ::
  "config \<Rightarrow> string option \<Rightarrow> string option \<Rightarrow> string \<Rightarrow> database \<Rightarrow> message_out res"
where
  "get_messages_id cfg authorization x_api_key message_id db =
     rbind (require_api_key cfg authorization x_api_key) (\<lambda>svc. get_message db svc message_id)"

definition get_messages ::
  "config \<Rightarrow> string option \<Rightarrow> string option \<Rightarrow> string option \<Rightarrow> string option \<Rightarrow> int \<Rightarrow> int \<Rightarrow>
   database \<Rightarrow> database \<Rightarrow> (message_out list \<times> nat) res"
where
  "get_messages cfg authorization x_api_key dir st limit offset db_count db_rows =
     rbind (require_api_key cfg authorization x_api_key)
       (\<lambda>svc. list_messages db_count db_rows svc dir st limit offset)"

definition post_grafana ::
  "(string \<Rightarrow> string) \<Rightarrow> (string \<Rightarrow> json res) \<Rightarrow> (string \<Rightarrow> (instant \<times> int option) option) \<Rightarrow>
   (nat \<Rightarrow> instant) \<Rightarrow> 'n phonelib \<Rightarrow> (string \<Rightarrow> string \<Rightarrow> bool res) \<Rightarrow> config \<Rightarrow> string option \<Rightarrow> string option \<Rightarrow>
   string list \<Rightarrow> (nat \<Rightarrow> row_seed) \<Rightarrow> database \<Rightarrow> database \<Rightarrow> database \<Rightarrow> (nat \<times> nat) res \<times> database"
where
  "post_grafana sha loads fromiso now lib re_search cfg authorization x_api_key chunks fresh db0 db1 db2 =
     (case require_api_key cfg authorization x_api_key of
        Inl e \<Rightarrow> (Inl e, db1)
      | Inr svc \<Rightarrow> grafana sha loads fromiso now lib re_search cfg svc chunks fresh db0 db1 db2)"

subsection \<open>One turn with good answers\<close>

text \<open>The row after the turn, for a message that is alone in the queue.\<close>

definition texted_row :: "send_env \<Rightarrow> string \<Rightarrow> message \<Rightarrow> message" where
  "texted_row env pid m =
     (sent (Some pid) (e_now_send env) (claimed (e_now_claim env) (e_claim_flush env (mid m)) m))
       \<lparr>updated_at := e_send_flush env (mid m)\<rparr>"

definition published_row :: "send_env \<Rightarrow> string \<Rightarrow> message \<Rightarrow> message" where
  "published_row env receipt m =
     (published receipt (e_now_publish env) (claimed (e_now_claim env) (e_claim_flush env (mid m)) m))
       \<lparr>updated_at := e_publish_flush env (mid m)\<rparr>"

lemma send_sms_accepted:
  assumes db: "db_ok db" "m \<in> set (messages db)" "status m = SENDING"
    and s: "send (case to_number m of None \<Rightarrow> [] | Some n \<Rightarrow> n) (body m) = Inr (JStr pid)"
  shows "send_sms cfg bind_other send env m db =
    ([CallSms (mid m)], put_row ((sent (Some pid) (e_now_send env) m)\<lparr>updated_at := e_send_flush env (mid m)\<rparr>) db) \<and>
    db_ok (put_row ((sent (Some pid) (e_now_send env) m)\<lparr>updated_at := e_send_flush env (mid m)\<rparr>) db)"
proof -
  let ?m = "sent (Some pid) (e_now_send env) m"
  have p: "mid ?m = mid m" "service ?m = service m" "idempotency_key ?m = idempotency_key m"
    "updated_at ?m = updated_at m" "status ?m = SENT"
    by (simp_all add: sent_def)
  then have "?m \<noteq> m" using db(3) by auto
  from commit_put [OF db(1,2) p(1) this p(2,3), of "e_send_flush env"] p s show ?thesis
    by (simp add: send_sms_def after_send_def bind_id_def message_changes_self)
qed

lemma published_accepted:
  assumes db: "db_ok db" "m \<in> set (messages db)" "status m = SENDING" and s: "pub m = Inr receipt"
  shows "published_or_texted cfg bind_other pub send env m db =
    ([CallNtfy (mid m)], put_row ((published receipt (e_now_publish env) m)\<lparr>updated_at := e_publish_flush env (mid m)\<rparr>) db) \<and>
    db_ok (put_row ((published receipt (e_now_publish env) m)\<lparr>updated_at := e_publish_flush env (mid m)\<rparr>) db)"
proof -
  let ?m = "published receipt (e_now_publish env) m"
  have "?m \<noteq> m" using db(3) by (auto dest: arg_cong [where f = status] simp: row_simps)
  from commit_put [OF db(1,2) _ this, of "e_publish_flush env"] s show ?thesis
    by (simp add: published_or_texted_def message_changes_self row_simps)
qed

lemma turn_with_answers:
  assumes db: "db_ok db" "none_sending db" "queue db = [m]" "is_due (e_now_claim env) m"
    and ntfy: "transport m = Ntfy \<Longrightarrow>
      pub (claimed (e_now_claim env) (e_claim_flush env (mid m)) m) = Inr receipt"
    and sms: "transport m \<noteq> Ntfy \<Longrightarrow>
      send (case to_number m of None \<Rightarrow> [] | Some n \<Rightarrow> n) (body m) = Inr (JStr pid)"
  shows "\<exists>w. send_iteration cfg bind_other pub send env db =
      ([if transport m = Ntfy then CallNtfy (mid m) else CallSms (mid m)], put_row w db) \<and> db_ok (put_row w db) \<and>
    w = (if transport m = Ntfy then published_row env receipt m else texted_row env pid m) \<and> m \<in> set (messages db)"
proof -
  let ?w = "claimed (e_now_claim env) (e_claim_flush env (mid m)) m"
  have c: "claim_next (e_now_claim env) (e_claim_flush env) db db = Inr (Some ?w, put_row ?w db)"
    "db_ok (put_row ?w db)" "m \<in> set (messages db)"
    using claim_oldest [OF db(1,3), of "e_now_claim env" "e_claim_flush env"] db(3,4) by auto
  then have w: "?w \<in> set (messages (put_row ?w db))" "status ?w = SENDING" "mid ?w = mid m"
    by (auto intro: put_row_mem)
  show ?thesis
  proof (cases "transport m = Ntfy")
    case True
    with published_accepted [OF c(2) w(1,2), of pub receipt cfg bind_other send env] ntfy c db(2) show ?thesis
      by (simp add: send_iteration_eq requeue_nothing published_row_def row_simps)
  next
    case False
    with send_sms_accepted [OF c(2) w(1,2), of send pid cfg bind_other env] sms c db(2) show ?thesis
      by (simp add: send_iteration_eq requeue_nothing texted_row_def sent_def)
  qed
qed

lemma get_message_put:
  assumes "db_ok (put_row w db)" and "w \<in> set (messages (put_row w db))" and "service w = svc"
  shows "get_message (put_row w db) svc (mid w) = Inr (message_out_of w)"
  using msg.find_distinct [OF db_ok_distinct [OF assms(1)] assms(2)] assms(3)
  by (simp add: get_message_def get_message_row_def)

subsection \<open>Properties\<close>

lemma posted_row:
  assumes "post_messages lib re_search cfg authorization x_api_key r fresh db db db = (Inr [out], db1)"
    and "db_ok db" and "o_id out \<notin> ids db"
  obtains svc m where "require_api_key cfg authorization x_api_key = Inr svc" "out = message_out_of m"
    "messages db1 = messages db @ [m]" "db_ok db1" "status m = QUEUED" "direction m = OUTBOUND" "service m = svc"
    "body m = sr_body r" "attempts m = 0" "to_number m \<noteq> None" "next_attempt_at m = Some (seed_due (fresh 0))"
proof -
  obtain svc where svc: "require_api_key cfg authorization x_api_key = Inr svc"
    and s: "send_message lib re_search cfg r svc fresh db db db = (Inr [out], db1)"
    using assms(1) by (auto simp: post_messages_def split: sum.splits if_splits)
  from s show thesis
  proof (cases rule: send_message_cases)
    case (queued ns ms)
    then obtain m where ms: "ms = [m]" "out = message_out_of m" by (cases ms) auto
    then obtain n where ns: "ns = [n]"
      using created_rows_Inr(1) [OF queued(4)] by (cases ns) auto
    have "next_attempt_at m = Some (seed_due (fresh 0))"
      using queued(4) by (auto simp: ms ns created_rows_def route_row_def queued_row_def res_simps)
    moreover have "to_number m = Some n" using created_rows_Inr(3) [OF queued(4)] by (simp add: ms ns)
    ultimately show ?thesis
      using that [OF svc ms(2)] insert_messages_ok [OF queued(5) assms(2)] created_rows_Inr(2) [OF queued(4), of m]
      by (simp add: ms(1))
  qed (use assms(3) in \<open>auto simp: ids_def message_out_of_def dest: key_lookup_SomeD\<close>)
qed


text \<open>For the witness: a gateway that takes every message, and a caller presenting its key.\<close>

definition sample_gateway :: "http_request \<Rightarrow> response res" where
  "sample_gateway req = Inr \<lparr>status_code = 202, resp_text = [], resp_json = Some (JObj [(''id'', JStr ''g1'')])\<rparr>"

definition plain_request :: send_request where
  "plain_request = \<lparr>sr_to = One ''+1666'', sr_body = ''hi'', sr_priority = 3, sr_key = None\<rparr>"

lemma sample_post:
  "\<exists>m db1. post_messages sample_lib (\<lambda>_ _. Inr True) sample_config None (Some ''k1'') plain_request sample_seed
       \<lparr>messages = [], deliveries = []\<rparr> \<lparr>messages = [], deliveries = []\<rparr> \<lparr>messages = [], deliveries = []\<rparr> =
       (Inr [message_out_of m], db1) \<and> mid m = [] \<and> transport m = Sms \<and> to_number m = Some ''+1666''"
proof -
  have "require_api_key sample_config None (Some ''k1'') = Inr ''ops''" "send_request_valid plain_request"
    "send_prepare sample_lib sample_config plain_request = Inr [''+1666'']"
    by code_simp+
  moreover have "messages_ok [m]" for m by (simp add: messages_ok_def idem_keys_def)
  ultimately show ?thesis
    by (intro exI [of _ "(queued_row plain_request ''ops'' (sample_seed 0) ''+1666'')\<lparr>notification_topic := None, transport := Sms\<rparr>"])
      (simp add: post_messages_def send_message_def created_rows_def route_row_def sample_topics insert_messages_def
        key_lookup_def plain_request_def queued_row_def sample_seed_def new_message_def)
qed


subsection \<open>From the phone to the subscribers\<close>

text \<open>An attempt on a pending row whose subscriber's endpoint takes it.\<close>

lemma deliver_accepted:
  assumes "find_subscriber subs (d_subscriber d) = Some sub"
    and "net (delivery_request hmac isoformat sub d m) = Inr resp" "status_code resp < 300"
  shows "deliver hmac isoformat net (Inr subs) now d m =
    Inr (d\<lparr>d_attempts := d_attempts d + 1, d_response_code := Some (status_code resp), d_status := Delivered, d_error := None\<rparr>)"
  using assms by (simp add: deliver_def Let_def)

lemma find_subscriber_mem:
  assumes "s \<in> set subs"
  obtains s' where "find_subscriber subs (s_name s) = Some s'" "s' \<in> set subs" "s_name s' = s_name s"
proof -
  obtain s' where s': "find_subscriber subs (s_name s) = Some s'"
    using assms by (cases "find_subscriber subs (s_name s)") (auto simp: find_subscriber_def find_None_iff)
  then have "s' \<in> set subs" "s_name s' = s_name s" by (auto simp: find_subscriber_def find_Some_iff)
  with s' show thesis by (rule that)
qed



end
