(* ===== verification/Settle.thy ===== *)
theory Settle
  imports Loops Fanout
begin

section \<open>Every row is settled in the end (worker.py)\<close>

text \<open>
  \<open>Drain\<close> works off a queue whose messages are taken or refused for good. Here the provider
  may fail for a passing reason as often as it likes, and subscribers may be down: the tries
  the rows have left are the potential of the contract \<open>works_off\<close>, interpreted for the send loop and for
  the fan-out loop, with the latest time a row may be waiting for beside the tables.
\<close>

subsection \<open>The send loop\<close>

text \<open>A turn with answers: any but an exception that leaves the loop's handlers.\<close>

definition answering :: "turn \<Rightarrow> bool" where
  "answering turn =
     (case turn of (env, pub, send) \<Rightarrow>
        (\<forall>m e. pub m = Inl e \<longrightarrow> publish_error e) \<and>
        (\<forall>n b. (\<exists>v. send n b = Inr v \<and> (v = JNull \<or> is_str v)) \<or> (\<exists>msg p. send n b = Inl (ProviderError msg p))))"

definition tries_left :: "config \<Rightarrow> message \<Rightarrow> nat" where
  "tries_left cfg m = nat (max 1 (max_attempts cfg - attempts m))"

definition due_by :: "instant \<Rightarrow> message \<Rightarrow> bool" where
  "due_by b m \<longleftrightarrow> (case next_attempt_at m of None \<Rightarrow> True | Some due \<Rightarrow> due \<le> b)"

text \<open>Each turn claims when every backoff so far is over.\<close>

fun spaced :: "instant \<Rightarrow> turn list \<Rightarrow> bool" where
  "spaced b [] \<longleftrightarrow> True"
| "spaced b ((env, pub, send) # turns) \<longleftrightarrow>
     b \<le> e_now_claim env \<and> spaced (max b (e_now_send env + seconds 900)) turns"

fun send_turn :: "config \<Rightarrow> (json \<Rightarrow> string res) \<Rightarrow> turn \<Rightarrow> database \<times> instant \<Rightarrow> database \<times> instant" where
  "send_turn cfg bind_other (env, pub, send) (db, b) =
     (snd (send_iteration cfg bind_other pub send env db), max b (e_now_send env + seconds 900))"

fun send_fit :: "turn \<Rightarrow> database \<times> instant \<Rightarrow> bool" where
  "send_fit turn (db, b) \<longleftrightarrow> answering turn \<and> b \<le> e_now_claim (fst turn)"

fun send_calls :: "config \<Rightarrow> (json \<Rightarrow> string res) \<Rightarrow> turn \<Rightarrow> database \<times> instant \<Rightarrow> nat" where
  "send_calls cfg bind_other (env, pub, send) (db, b) =
     length (sms_ids (fst (send_iteration cfg bind_other pub send env db)))"

definition queue_tries :: "config \<Rightarrow> database \<Rightarrow> nat" where
  "queue_tries cfg db = sum_list (map (\<lambda>m. if in_queue m then tries_left cfg m else 0) (messages db))"

fun send_inv :: "database \<Rightarrow> database \<times> instant \<Rightarrow> bool" where
  "send_inv db0 (db, b) \<longleftrightarrow>
     db_ok db \<and> none_sending db \<and> (\<forall>m \<in> set (queue db). due_by b m) \<and> map mid (messages db) = map mid (messages db0) \<and>
     (\<forall>r \<in> set (messages db). r \<in> set (messages db0) \<or>
        mid r \<in> mid ` set (queue db0) \<and> (in_queue r \<or> status r \<in> {SENT, PUBLISHED, FAILED}))"

lemma set_queue: "set (queue db) = {m \<in> set (messages db). in_queue m}"
  by (simp add: queue_def)

lemma queue_tries_queue: "queue_tries cfg db = sum_list (map (tries_left cfg) (queue db))"
proof -
  have "queue_tries cfg db = sum_list (map (tries_left cfg) (filter in_queue (messages db)))"
    by (simp add: queue_tries_def sum_list_map_filter')
  also have "mset (map (tries_left cfg) (filter in_queue (messages db))) = mset (map (tries_left cfg) (queue db))"
    by (simp add: queue_def)
  then have "sum_list (map (tries_left cfg) (filter in_queue (messages db))) = sum_list (map (tries_left cfg) (queue db))"
    by (metis sum_mset_sum_list)
  finally show ?thesis .
qed

lemma tries_left_pos: "1 \<le> tries_left cfg m"
  by (simp add: tries_left_def)

lemma queue_tries_0: "queue_tries cfg db = 0 \<longleftrightarrow> queue db = []"
  using tries_left_pos [of cfg] by (cases "queue db") (auto simp: queue_tries_queue not_less_eq_eq [symmetric])

lemma sum_put_row:
  fixes f :: "message \<Rightarrow> nat"
  assumes "distinct (map mid ms)" and "m \<in> set ms" and "mid w = mid m"
  shows "sum_list (map f (map (\<lambda>r. if mid r = mid w then w else r) ms)) + f m = sum_list (map f ms) + f w"
  using assms
proof (induction ms)
  case (Cons r rs)
  show ?case
  proof (cases "mid r = mid m")
    case True
    then have "mid w \<notin> set (map mid rs)" using Cons.prems by simp
    moreover from this have "r = m" using Cons.prems(2,3) by auto
    ultimately have "\<forall>x \<in> set rs. mid x \<noteq> mid w" "r = m" by (auto simp: rev_image_eqI)
    then have "map (\<lambda>r. if mid r = mid w then w else r) rs = rs" by (simp add: map_idI)
    then show ?thesis using True \<open>r = m\<close> Cons.prems(3) by simp
  next
    case False
    then show ?thesis using Cons by auto
  qed
qed simp

text \<open>The row after a turn: settled, or queued again with one attempt more and a bounded wait.\<close>

definition settled_or_retried :: "config \<Rightarrow> instant \<Rightarrow> message \<Rightarrow> message \<Rightarrow> bool" where
  "settled_or_retried cfg b m w \<longleftrightarrow>
     status w \<in> {SENT, PUBLISHED, FAILED} \<or>
     in_queue w \<and> attempts w = attempts m + 1 \<and> attempts w < max_attempts cfg \<and> due_by b w"

lemma answered_outcome:
  assumes "answering (env, pub, send)" and "same_text m w" "direction m = OUTBOUND"
  shows "sms_outcome cfg bind_other send env (settled_or_retried cfg (e_now_send env + seconds 900) m) w"
proof -
  let ?r = "send (case to_number w of None \<Rightarrow> [] | Some n \<Rightarrow> n) (body w)"
  have same: "attempts w = attempts m" "direction w = OUTBOUND" using assms(2,3) by (simp_all add: same_text_def)
  consider v where "?r = Inr v" "v = JNull \<or> is_str v" | msg p where "?r = Inl (ProviderError msg p)"
    using assms(1) unfolding answering_def prod.case by metis
  then show ?thesis
  proof cases
    case 1
    then obtain pid where "bind_id bind_other v = Inr pid" by (cases v) (auto simp: bind_id_def)
    with 1 show ?thesis by (auto simp: sms_outcome_def after_send_def sent_def settled_or_retried_def)
  next
    case 2
    have "seconds (worker_backoff_seconds n) \<le> seconds 900" for n
      using worker_policy.backoff_bounds [of n] by (simp add: seconds_def)
    then show ?thesis using 2 same
      by (auto simp: sms_outcome_def after_send_def send_failure_def settled_or_retried_def in_queue_def due_by_def
          send_backoff_def Let_def)
  qed
qed

lemma send_turn_done:
  assumes "send_inv db0 (db, b)" and "send_fit (env, pub, send) (db, b)" and "queue db = m # ms"
  shows "turn_done (settled_or_retried cfg (e_now_send env + seconds 900) m) m db (send_iteration cfg bind_other pub send env db)"
proof (rule turn_takes_oldest)
  have "m \<in> set (queue db)" by (simp add: assms(3))
  then have out: "direction m = OUTBOUND" by (simp add: set_queue in_queue_def)
  show "\<forall>r \<in> set (queue db). is_due (e_now_claim env) r"
    using assms(1,2) by (fastforce simp: set_queue in_queue_def is_due_def due_by_def split: option.splits)
  show "sms_outcome cfg bind_other send env (settled_or_retried cfg (e_now_send env + seconds 900) m) w"
    if "same_text m w" for w
    by (rule answered_outcome [OF _ that out, of env pub]) (use assms(2) in simp)
qed (use assms in \<open>auto simp: answering_def settled_or_retried_def\<close>)

lemma send_turn_keeps:
  assumes inv: "send_inv db0 (db, b)" and fit: "send_fit turn (db, b)"
  shows "send_inv db0 (send_turn cfg bind_other turn (db, b)) \<and>
    send_calls cfg bind_other turn (db, b) + queue_tries cfg (fst (send_turn cfg bind_other turn (db, b))) \<le> queue_tries cfg db \<and>
    (0 < queue_tries cfg db \<longrightarrow> queue_tries cfg (fst (send_turn cfg bind_other turn (db, b))) < queue_tries cfg db)"
proof -
  obtain env pub send where turn: "turn = (env, pub, send)" by (cases turn)
  let ?r = "send_iteration cfg bind_other pub send env db" and ?b = "max b (e_now_send env + seconds 900)"
  show ?thesis
  proof (cases "queue db")
    case Nil
    then have "?r = ([], db)" using turn_idle inv by simp
    then show ?thesis using inv Nil by (simp add: turn queue_tries_queue sms_ids_def)
  next
    case (Cons m ms)
    then have m: "m \<in> set (messages db)" "in_queue m" using set_queue [of db] by auto
    obtain w where w: "snd ?r = put_row w db" "mid w = mid m" "db_ok (snd ?r)"
      and res: "settled_or_retried cfg (e_now_send env + seconds 900) m w"
      using send_turn_done [OF inv fit [unfolded turn] Cons, of cfg bind_other] by (auto simp: turn_done_def)
    have q: "\<forall>r \<in> set (queue (put_row w db)). due_by ?b r"
      using inv res by (fastforce simp: set_queue settled_or_retried_def due_by_def in_queue_def
          dest!: put_row_origin split: option.splits)
    have "none_sending (put_row w db)"
      using inv res by (auto simp: none_sending_def settled_or_retried_def in_queue_def dest!: put_row_origin)
    moreover have "r \<in> set (messages db0) \<or> mid r \<in> mid ` set (queue db0) \<and> (in_queue r \<or> status r \<in> {SENT, PUBLISHED, FAILED})"
      if "r \<in> set (messages (put_row w db))" for r
    proof -
      have "mid m \<in> mid ` set (queue db0)" using inv m by (auto simp: set_queue)
      then show ?thesis
        using put_row_origin [OF that] inv w(2) res by (auto simp: settled_or_retried_def)
    qed
    ultimately have keeps: "send_inv db0 (put_row w db, ?b)" using inv w q by (simp add: put_row_mids)
    let ?f = "\<lambda>m. if in_queue m then tries_left cfg m else 0"
    have "queue_tries cfg (put_row w db) + ?f m = queue_tries cfg db + ?f w"
      using sum_put_row [OF db_ok_distinct m(1) w(2), of ?f] inv by (simp add: queue_tries_def put_row_def)
    moreover have "?f w < ?f m"
      using res m(2) tries_left_pos [of cfg m]
      by (auto simp: settled_or_retried_def in_queue_def tries_left_def)
    moreover have "length (sms_ids (fst ?r)) \<le> 1" by (rule sms_ids_iteration)
    ultimately show ?thesis using keeps w(1) by (simp add: turn)
  qed
qed

interpretation sending: works_off "send_turn cfg bind_other" send_fit "send_inv db0" "send_calls cfg bind_other"
    "\<lambda>s. queue_tries cfg (fst s)"
  for cfg bind_other db0
proof
  fix s e assume "send_inv db0 s" "send_fit e s"
  then have "send_inv db0 (fst s, snd s)" "send_fit e (fst s, snd s)" by simp_all
  note k = send_turn_keeps [OF this, of cfg bind_other]
  show "send_inv db0 (send_turn cfg bind_other e s)" using k by simp
  show "send_calls cfg bind_other e s + queue_tries cfg (fst (send_turn cfg bind_other e s)) \<le> queue_tries cfg (fst s)"
    using k by simp
  show "0 < queue_tries cfg (fst s) \<Longrightarrow> queue_tries cfg (fst (send_turn cfg bind_other e s)) < queue_tries cfg (fst s)"
    using k by simp
qed

lemma send_fits:
  "spaced b turns \<Longrightarrow> \<forall>turn \<in> set turns. answering turn \<Longrightarrow> fits (send_turn cfg bind_other) send_fit turns (db, b)"
  by (induction b turns arbitrary: db rule: spaced.induct) auto

lemma send_loop_fold:
  "fst (fold (send_turn cfg bind_other) turns (db, b)) = snd (send_loop cfg bind_other turns db)"
  "total_cost (send_turn cfg bind_other) (send_calls cfg bind_other) turns (db, b) =
     length (sms_ids (fst (send_loop cfg bind_other turns db)))"
  by (induction turns arbitrary: db b) (auto simp: sms_ids_append sms_ids_def split: prod.splits)

subsection \<open>The fan-out loop\<close>

text \<open>
  A turn of it: the reading of the clock of the query, those of the flush and after each request, by
  row, an upper bound of them, and what the subscribers' endpoints answer.
\<close>

record fanout_turn =
  f_now :: instant
  f_flush :: "string \<Rightarrow> instant"
  f_after :: "string \<Rightarrow> instant"
  f_last :: instant
  f_net :: "http_request \<Rightarrow> response res"

definition delivery_tries :: "delivery \<Rightarrow> nat" where
  "delivery_tries d = (if d_status d = Pending then nat (max 1 (MAX_DELIVERY_ATTEMPTS - d_attempts d)) else 0)"

definition pending_tries :: "database \<Rightarrow> nat" where
  "pending_tries db = (\<Sum>d \<in> set (deliveries db). delivery_tries d)"

definition pending_by :: "instant \<Rightarrow> delivery \<Rightarrow> bool" where
  "pending_by b d \<longleftrightarrow> d_status d = Pending \<longrightarrow> (case d_next_attempt_at d of None \<Rightarrow> True | Some due \<Rightarrow> due \<le> b)"

definition fanout_pass ::
  "hmac_hex \<Rightarrow> (instant \<Rightarrow> string) \<Rightarrow> subscriber list \<Rightarrow> fanout_turn \<Rightarrow> database \<Rightarrow> database"
where
  "fanout_pass hmac isoformat subs e db =
     fanout_iteration (\<lambda>d m. deliver hmac isoformat (f_net e) (Inr subs) (f_after e (d_id d)) d m) (f_now e) (f_flush e) db db"

fun fanout_step ::
  "hmac_hex \<Rightarrow> (instant \<Rightarrow> string) \<Rightarrow> subscriber list \<Rightarrow> fanout_turn \<Rightarrow> database \<times> instant \<Rightarrow> database \<times> instant"
where
  "fanout_step hmac isoformat subs e (db, b) =
     (fanout_pass hmac isoformat subs e db, max b (f_last e + seconds 3600))"

text \<open>No exception but network errors, and the clock past every backoff so far.\<close>

definition reachable_net :: "fanout_turn \<Rightarrow> bool" where
  "reachable_net e \<longleftrightarrow> (\<forall>req x. f_net e req = Inl x \<longrightarrow> is_HTTPError x) \<and> (\<forall>i. f_after e i \<le> f_last e)"

fun fanout_fit :: "fanout_turn \<Rightarrow> database \<times> instant \<Rightarrow> bool" where
  "fanout_fit e (db, b) \<longleftrightarrow> reachable_net e \<and> b \<le> f_now e"

fun fanout_spaced :: "instant \<Rightarrow> fanout_turn list \<Rightarrow> bool" where
  "fanout_spaced b [] \<longleftrightarrow> True"
| "fanout_spaced b (e # es) \<longleftrightarrow> b \<le> f_now e \<and> fanout_spaced (max b (f_last e + seconds 3600)) es"

fun fanout_calls :: "fanout_turn \<Rightarrow> database \<times> instant \<Rightarrow> nat" where
  "fanout_calls e (db, b) = length (due_batch (f_now e) db)"

fun fanout_inv :: "database \<Rightarrow> database \<times> instant \<Rightarrow> bool" where
  "fanout_inv db0 (db, b) \<longleftrightarrow>
     db_ok db \<and> messages db = messages db0 \<and> (\<forall>d \<in> set (deliveries db). pending_by b d) \<and>
     (\<forall>d \<in> set (deliveries db0). d_status d \<noteq> Pending \<longrightarrow> d \<in> set (deliveries db))"

lemma deliver_total:
  assumes "\<forall>req x. net req = Inl x \<longrightarrow> is_HTTPError x"
  shows "\<exists>d'. deliver hmac isoformat net (Inr subs) now d m = Inr d'"
proof (cases "find_subscriber subs (d_subscriber d)")
  case (Some sub)
  show ?thesis
  proof (cases "net (delivery_request hmac isoformat sub d m)")
    case (Inl x)
    then have "is_HTTPError x" using assms by blast
    then obtain exc where "x = HTTPError exc" by (cases x) auto
    with Some Inl show ?thesis by (simp add: deliver_def Let_def)
  next
    case (Inr resp)
    with Some show ?thesis by (simp add: deliver_def Let_def)
  qed
qed (simp add: deliver_def)

text \<open>An attempt uses up a try of its row, and a row still pending waits at most an hour.\<close>

lemma deliver_uses_try:
  assumes "deliver hmac isoformat net configured now d m = Inr d'" and "d_status d = Pending"
  shows "delivery_tries (d'\<lparr>d_updated_at := t\<rparr>) + 1 \<le> delivery_tries d" and "pending_by (now + seconds 3600) (d'\<lparr>d_updated_at := t\<rparr>)"
proof -
  have "seconds (webhook_backoff_seconds n) \<le> seconds 3600" for n
    using webhook_policy.backoff_bounds [of n] by (simp add: seconds_def)
  with assms show "delivery_tries (d'\<lparr>d_updated_at := t\<rparr>) + 1 \<le> delivery_tries d"
      "pending_by (now + seconds 3600) (d'\<lparr>d_updated_at := t\<rparr>)"
    by (auto elim!: deliver_cases simp: delivery_tries_def failed_attempt_def give_up_or_retry_def MAX_DELIVERY_ATTEMPTS_def
        pending_by_def webhook_backoff_def)
qed

lemma pending_by_mono: "pending_by b d \<Longrightarrow> b \<le> b' \<Longrightarrow> pending_by b' d"
  by (auto simp: pending_by_def split: option.splits)

text \<open>The rows after a turn, when no attempt raises: each row of the batch has the row of its attempt.\<close>

lemma fanout_pass_rows:
  assumes db: "db_ok db" and net: "reachable_net e"
  obtains w where "set (deliveries (fanout_pass hmac isoformat subs e db)) =
      set (deliveries db) - set (due_batch (f_now e) db) \<union> w ` set (due_batch (f_now e) db)"
    "messages (fanout_pass hmac isoformat subs e db) = messages db"
    "\<And>d. d \<in> set (due_batch (f_now e) db) \<Longrightarrow>
       \<exists>m d'. deliver hmac isoformat (f_net e) (Inr subs) (f_after e (d_id d)) d m = Inr d' \<and>
         w d = d'\<lparr>d_updated_at := f_flush e (d_id d)\<rparr>"
proof -
  define attempt where "attempt = (\<lambda>d m. deliver hmac isoformat (f_net e) (Inr subs) (f_after e (d_id d)) d m)"
  define batch where "batch = due_batch (f_now e) db"
  have total: "\<exists>d'. attempt d m = Inr d'" for d m
    unfolding attempt_def by (rule deliver_total) (use net in \<open>simp add: reachable_net_def\<close>)
  then have "attempt d m \<noteq> Inl x" for d m x by (metis Inl_Inr_False)
  then have "\<not> (\<exists>x. mapR (fanout_one attempt db) batch = Inl x)"
    unfolding batch_def batch_raises [OF db] by blast
  then obtain ps where ps: "mapR (fanout_one attempt db) batch = Inr ps"
    by (cases "mapR (fanout_one attempt db) batch") auto
  have changes: "d' \<noteq> d \<and> d_id d' = d_id d \<and> d_updated_at d' = d_updated_at d"
    if "attempt d m = Inr d'" "d_status d = Pending" for d m d'
    using deliver_changes_row [of hmac isoformat "f_net e" "Inr subs" "f_after e (d_id d)" d m d'] that by (simp add: attempt_def)
  have it: "fanout_pass hmac isoformat subs e db = fanout_iteration attempt (f_now e) (f_flush e) db db"
    by (simp add: fanout_pass_def attempt_def)
  have rows: "messages (fanout_pass hmac isoformat subs e db) = messages db"
    "set (deliveries (fanout_pass hmac isoformat subs e db)) =
      set (deliveries db) - set batch \<union> {d2. \<exists>d \<in> set batch. recorded attempt (f_flush e) db d d2}"
    using batch_recorded [OF db ps [unfolded batch_def] changes, where t = "f_flush e"] unfolding it batch_def by auto
  have one: "\<exists>!d2. recorded attempt (f_flush e) db d d2" if d: "d \<in> set batch" for d
  proof -
    have "d \<in> set (deliveries db)" using d due_batch_rows(1) [OF db] by (auto simp: batch_def)
    from delivery_has_message [OF db this] obtain m where
      m: "\<forall>m'. m' \<in> set (messages db) \<and> mid m' = d_message_id d \<longleftrightarrow> m' = m" by metis
    obtain d' where "attempt d m = Inr d'" using total by blast
    with m show ?thesis unfolding recorded_def by (metis Inr_inject)
  qed
  define w where "w d = (THE d2. recorded attempt (f_flush e) db d d2)" for d
  have w: "recorded attempt (f_flush e) db d (w d)" if "d \<in> set batch" for d
    unfolding w_def by (rule theI' [OF one [OF that]])
  have "{d2. \<exists>d \<in> set batch. recorded attempt (f_flush e) db d d2} = w ` set batch"
    using w one by (auto intro!: image_eqI [of _ w])
  moreover have "\<exists>m d'. deliver hmac isoformat (f_net e) (Inr subs) (f_after e (d_id d)) d m = Inr d' \<and>
      w d = d'\<lparr>d_updated_at := f_flush e (d_id d)\<rparr>" if "d \<in> set batch" for d
    using w [OF that] unfolding recorded_def attempt_def by blast
  ultimately show thesis using rows by (intro that [of w]) (simp_all add: batch_def [symmetric])
qed

lemma fanout_pass_ok: "db_ok db \<Longrightarrow> db_ok (fanout_pass hmac isoformat subs e db)"
proof -
  assume "db_ok db"
  then have "bystands {} db (fanout_pass hmac isoformat subs e db)"
    unfolding fanout_pass_def by (intro fanout_iteration_bystands) (auto dest: deliver_frame)
  then show ?thesis by (simp add: bystands_def)
qed

lemma fanout_keeps:
  assumes inv: "fanout_inv db0 (db, b)" and fit: "fanout_fit e (db, b)"
  shows "fanout_inv db0 (fanout_step hmac isoformat subs e (db, b)) \<and>
    fanout_calls e (db, b) + pending_tries (fanout_pass hmac isoformat subs e db) \<le> pending_tries db \<and>
    (0 < pending_tries db \<longrightarrow> 0 < fanout_calls e (db, b))"
proof -
  define batch where "batch = due_batch (f_now e) db"
  let ?it = "fanout_pass hmac isoformat subs e db" and ?b = "max b (f_last e + seconds 3600)"
  have db: "db_ok db" using inv by simp
  obtain w where it: "set (deliveries ?it) = set (deliveries db) - set batch \<union> w ` set batch" "messages ?it = messages db"
    and w: "\<And>d. d \<in> set batch \<Longrightarrow> \<exists>m d'. deliver hmac isoformat (f_net e) (Inr subs) (f_after e (d_id d)) d m = Inr d' \<and>
         w d = d'\<lparr>d_updated_at := f_flush e (d_id d)\<rparr>"
    using fanout_pass_rows [OF db, of e hmac isoformat subs] fit unfolding batch_def by auto
  note rows = due_batch_rows [OF db, where now = "f_now e", folded batch_def]
  have pend: "d_status d = Pending" if "d \<in> set batch" for d
    using rows(3) [OF that] by (simp add: delivery_due_def)
  have used: "delivery_tries (w d) + 1 \<le> delivery_tries d \<and> pending_by ?b (w d)" if d: "d \<in> set batch" for d
  proof -
    obtain m d' where d': "deliver hmac isoformat (f_net e) (Inr subs) (f_after e (d_id d)) d m = Inr d'"
      "w d = d'\<lparr>d_updated_at := f_flush e (d_id d)\<rparr>" using w [OF d] by blast
    have "f_after e (d_id d) + seconds 3600 \<le> ?b" using fit by (simp add: reachable_net_def max.coboundedI2)
    then show ?thesis using deliver_uses_try [OF d'(1) pend [OF d]] d'(2) pending_by_mono by metis
  qed
  have "pending_tries ?it \<le> (\<Sum>d \<in> set (deliveries db) - set batch. delivery_tries d) + (\<Sum>d \<in> w ` set batch. delivery_tries d)"
    unfolding pending_tries_def it(1) by (simp add: sum_Un_nat)
  also have "(\<Sum>d \<in> w ` set batch. delivery_tries d) \<le> (\<Sum>d \<in> set batch. delivery_tries (w d))"
    using sum_image_le [of "set batch" delivery_tries w] by (simp add: comp_def)
  finally have "pending_tries ?it + length batch \<le>
      (\<Sum>d \<in> set (deliveries db) - set batch. delivery_tries d) + (\<Sum>d \<in> set batch. delivery_tries (w d) + 1)"
    using distinct_card [of batch] rows(2) by (simp add: sum_Suc distinct_map)
  also have "(\<Sum>d \<in> set batch. delivery_tries (w d) + 1) \<le> (\<Sum>d \<in> set batch. delivery_tries d)"
    by (rule sum_mono) (use used in simp)
  also have "(\<Sum>d \<in> set (deliveries db) - set batch. delivery_tries d) + (\<Sum>d \<in> set batch. delivery_tries d) = pending_tries db"
    unfolding pending_tries_def by (rule sum.subset_diff [OF rows(1), symmetric]) simp
  finally have "length batch + pending_tries ?it \<le> pending_tries db" by simp
  moreover have "batch \<noteq> []" if "0 < pending_tries db"
  proof -
    have "\<not> (\<forall>d \<in> set (deliveries db). delivery_tries d = 0)"
    proof
      assume "\<forall>d \<in> set (deliveries db). delivery_tries d = 0"
      then have "pending_tries db = 0" by (simp add: pending_tries_def)
      with that show False by simp
    qed
    then obtain d where "d \<in> set (deliveries db)" "delivery_tries d \<noteq> 0" by blast
    then have "delivery_due (f_now e) d"
      using inv fit by (fastforce simp: delivery_tries_def delivery_due_def pending_by_def split: if_splits option.splits)
    with \<open>d \<in> set (deliveries db)\<close> show ?thesis
      unfolding batch_def due_batch_def by (auto simp: filter_empty_conv dest!: arg_cong [where f = set])
  qed
  moreover have "db_ok ?it"
    by (rule fanout_pass_ok [OF db])
  moreover have "\<forall>d \<in> set (deliveries ?it). pending_by ?b d"
    using inv used pending_by_mono [of b _ ?b] by (auto simp: it(1))
  moreover have "\<forall>d \<in> set (deliveries db0). d_status d \<noteq> Pending \<longrightarrow> d \<in> set (deliveries ?it)"
    using inv pend by (auto simp: it(1))
  ultimately show ?thesis using inv it(2) by (simp add: batch_def [symmetric])
qed

interpretation fanning: works_off "fanout_step hmac isoformat subs" fanout_fit "fanout_inv db0" fanout_calls
    "\<lambda>s. pending_tries (fst s)"
  for hmac isoformat subs db0
proof
  fix s e assume "fanout_inv db0 s" "fanout_fit e s"
  then have "fanout_inv db0 (fst s, snd s)" "fanout_fit e (fst s, snd s)" by simp_all
  note k = fanout_keeps [OF this, of hmac isoformat subs]
  have fst: "fst (fanout_step hmac isoformat subs e s) = fanout_pass hmac isoformat subs e (fst s)" by (cases s) simp
  show "fanout_inv db0 (fanout_step hmac isoformat subs e s)" using k by simp
  show "fanout_calls e s + pending_tries (fst (fanout_step hmac isoformat subs e s)) \<le> pending_tries (fst s)"
    using k unfolding fst by simp
  show "0 < pending_tries (fst s) \<Longrightarrow> pending_tries (fst (fanout_step hmac isoformat subs e s)) < pending_tries (fst s)"
    using k unfolding fst by simp
qed

lemma fanout_fits:
  "fanout_spaced b es \<Longrightarrow> \<forall>e \<in> set es. reachable_net e \<Longrightarrow> fits (fanout_step hmac isoformat subs) fanout_fit es (db, b)"
  by (induction b es arbitrary: db rule: fanout_spaced.induct) auto

lemma fanout_fold:
  "fst (fold (fanout_step hmac isoformat subs) es (db, b)) = fold (fanout_pass hmac isoformat subs) es db"
  "total_cost (fanout_step hmac isoformat subs) fanout_calls es (db, b) =
     total_cost (fanout_pass hmac isoformat subs) (\<lambda>e db. length (due_batch (f_now e) db)) es db"
  by (induction es arbitrary: db b) auto

lemma pending_tries_0: "pending_tries db = 0 \<longleftrightarrow> (\<forall>d \<in> set (deliveries db). d_status d \<noteq> Pending)"
  by (auto simp: pending_tries_def delivery_tries_def)

subsection \<open>Properties\<close>


definition second_env :: send_env where
  "second_env = sample_env\<lparr>e_now_claim := seconds 1000, e_now_send := seconds 1001\<rparr>"


text \<open>
  C13. Every delivery is settled in the end, whatever the subscribers answer: with network
  errors as the only exceptions and turns that wait for the backoffs (at most an hour each), as many turns
  of the fan-out loop as the pending deliveries have tries left, six less their attempts,
  leave no delivery pending; settled ones and the messages are as they were, and the attempts
  made are no more than those tries.
\<close>

theorem every_delivery_settles:
  assumes "db_ok db" and "\<forall>d \<in> set (deliveries db). pending_by b d"
    and "fanout_spaced b es" and "\<forall>e \<in> set es. reachable_net e"
    and "pending_tries db \<le> length es" and "db' = fold (fanout_pass hmac isoformat subs) es db"
  shows "(\<forall>d \<in> set (deliveries db'). d_status d \<noteq> Pending) \<and> messages db' = messages db \<and>
    {d \<in> set (deliveries db). d_status d \<noteq> Pending} \<subseteq> set (deliveries db') \<and>
    total_cost (fanout_pass hmac isoformat subs) (\<lambda>e db. length (due_batch (f_now e) db)) es db \<le> pending_tries db"
proof -
  let ?run = "fold (fanout_step hmac isoformat subs) es (db, b)"
  have "fanout_inv db (db, b)" using assms(1,2) by simp
  note run = fanning.run_ends [OF this fanout_fits [OF assms(3,4)], of hmac isoformat subs]
  have db': "fst ?run = db'" by (simp only: fanout_fold assms(6))
  have cost: "total_cost (fanout_pass hmac isoformat subs) (\<lambda>e db. length (due_batch (f_now e) db)) es db + pending_tries db' \<le> pending_tries db"
    using run unfolding fanout_fold(2) db' fst_conv by blast
  have "pending_tries db' = 0" using run assms(5) unfolding db' fst_conv by simp
  moreover have "fanout_inv db (db', snd ?run)" using run db' by (metis prod.collapse)
  ultimately show ?thesis using cost by (auto simp: pending_tries_0)
qed

definition down_turn :: fanout_turn where
  "down_turn = \<lparr>f_now = seconds 1, f_flush = (\<lambda>_. seconds 1), f_after = (\<lambda>_. seconds 2), f_last = seconds 2,
     f_net = (\<lambda>_. Inl (HTTPError ''down''))\<rparr>"

definition late_turns :: "fanout_turn list" where
  "late_turns = map (\<lambda>k. down_turn\<lparr>f_now := seconds (4000 * k), f_after := (\<lambda>_. seconds (4000 * k + 1)),
     f_last := seconds (4000 * k + 1)\<rparr>) [1, 2, 3, 4, 5]"

theorem every_delivery_settles_witness:
  "\<exists>db'. db' = fold (fanout_pass (\<lambda>_ _. []) (\<lambda>_. []) [sample_subscriber]) (down_turn # late_turns) fanout_db \<and>
     (\<forall>d \<in> set (deliveries db'). d_status d \<noteq> Pending) \<and>
     total_cost (fanout_pass (\<lambda>_ _. []) (\<lambda>_. []) [sample_subscriber]) (\<lambda>e db. length (due_batch (f_now e) db))
       (down_turn # late_turns) fanout_db \<le> 6"
proof -
  have ok: "db_ok fanout_db" by (simp add: fanout_db_def db_ok_defs sample_row new_delivery_def)
  have by0: "\<forall>d \<in> set (deliveries fanout_db). pending_by 0 d"
    by (simp add: fanout_db_def pending_by_def new_delivery_def)
  have sp: "fanout_spaced 0 (down_turn # late_turns)" by (simp add: late_turns_def down_turn_def seconds_def)
  have net: "\<forall>e \<in> set (down_turn # late_turns). reachable_net e"
    by (simp add: late_turns_def down_turn_def reachable_net_def)
  have n: "pending_tries fanout_db = 6"
    by (simp add: pending_tries_def delivery_tries_def fanout_db_def new_delivery_def MAX_DELIVERY_ATTEMPTS_def)
  have len: "pending_tries fanout_db \<le> length (down_turn # late_turns)" by (simp add: n late_turns_def)
  show ?thesis
    using every_delivery_settles [OF ok by0 sp net len refl, of "\<lambda>_ _. []" "\<lambda>_. []" "[sample_subscriber]"]
    unfolding n by blast
qed

end
