(* ===== verification/Schemas.thy ===== *)
theory Schemas
  imports Outbound Inbound Service
begin

section \<open>The API's JSON (schemas.py)\<close>

text \<open>
  The schemas as the JSON they read and write: a body becomes a \<open>send_request\<close> or is refused,
  and each answer has its JSON. Pydantic reads an \<open>int\<close> field from other values than integers
  too (a text of digits, say): \<open>as_int\<close> is what it makes of a value, \<open>isoformat\<close> the text it
  writes for a \<open>datetime\<close>.
\<close>

subsection \<open>Requests\<close>

text \<open>\<open>to: str | list[str]\<close>.\<close>

definition recipients_of :: "json \<Rightarrow> recipients option" where
  "recipients_of v =
     (case v of
        JStr s \<Rightarrow> Some (One s)
      | JList vs \<Rightarrow> if list_all is_str vs then Some (Many (map the_str vs)) else None
      | _ \<Rightarrow> None)"

definition priority_of :: "(json \<Rightarrow> int option) \<Rightarrow> json option \<Rightarrow> int option" where
  "priority_of as_int v = (case v of None \<Rightarrow> Some 3 | Some n \<Rightarrow> as_int n)"

definition key_of :: "json option \<Rightarrow> string option option" where
  "key_of v =
     (case v of None \<Rightarrow> Some None | Some JNull \<Rightarrow> Some None | Some (JStr s) \<Rightarrow> Some (Some s) | Some _ \<Rightarrow> None)"

text \<open>Fields the schema does not name are ignored; \<open>to\<close> and \<open>body\<close> have no default.\<close>

definition request_of_json :: "(json \<Rightarrow> int option) \<Rightarrow> json \<Rightarrow> send_request option" where
  "request_of_json as_int v =
     (case v of
        JObj kvs \<Rightarrow>
          (case (map_of kvs ''to'', map_of kvs ''body'') of
             (Some t, Some (JStr b)) \<Rightarrow>
               (case (recipients_of t, priority_of as_int (map_of kvs ''notification_priority''),
                      key_of (map_of kvs ''idempotency_key'')) of
                  (Some rs, Some p, Some k) \<Rightarrow>
                    let r = \<lparr>sr_to = rs, sr_body = b, sr_priority = p, sr_key = k\<rparr>
                    in if send_request_valid r then Some r else None
                | _ \<Rightarrow> None)
           | _ \<Rightarrow> None)
      | _ \<Rightarrow> None)"

text \<open>The same schema written out, as a client with these models sends it.\<close>

definition request_json :: "send_request \<Rightarrow> json" where
  "request_json r =
     JObj [(''notification_priority'', JInt (sr_priority r)),
           (''to'', case sr_to r of One s \<Rightarrow> JStr s | Many ss \<Rightarrow> JList (map JStr ss)),
           (''body'', JStr (sr_body r)), (''idempotency_key'', opt_json (sr_key r))]"

subsection \<open>Answers\<close>

fun transport_value :: "transport \<Rightarrow> string" where
  "transport_value Sms = ''sms''"
| "transport_value Ntfy = ''ntfy''"
| "transport_value SmsFallback = ''sms-fallback''"

definition out_json :: "(instant \<Rightarrow> string) \<Rightarrow> message_out \<Rightarrow> json" where
  "out_json isoformat m =
     JObj [(''id'', JStr (o_id m)), (''direction'', JStr (direction_value (o_direction m))),
           (''status'', JStr (status_value (o_status m))), (''to'', opt_json (o_to m)),
           (''from'', opt_json (o_from m)), (''body'', JStr (o_body m)),
           (''service'', JStr (o_service m)), (''attempts'', JInt (o_attempts m)),
           (''transport'', JStr (transport_value (o_transport m))),
           (''notification_topic'', opt_json (o_notification_topic m)),
           (''notification_priority'', JInt (o_notification_priority m)),
           (''provider_message_id'', opt_json (o_provider_message_id m)),
           (''error'', opt_json (o_error m)), (''created_at'', JStr (isoformat (o_created_at m))),
           (''updated_at'', JStr (isoformat (o_updated_at m))),
           (''sent_at'', opt_json (map_option isoformat (o_sent_at m)))]"

definition send_response_json :: "(instant \<Rightarrow> string) \<Rightarrow> message_out list \<Rightarrow> json" where
  "send_response_json isoformat ms = JObj [(''messages'', JList (map (out_json isoformat) ms))]"

definition message_list_json :: "(instant \<Rightarrow> string) \<Rightarrow> message_out list \<times> nat \<Rightarrow> json" where
  "message_list_json isoformat p =
     JObj [(''messages'', JList (map (out_json isoformat) (fst p))), (''total'', JInt (int (snd p)))]"

definition health_json :: "health_response \<Rightarrow> json" where
  "health_json h =
     JObj [(''status'', JStr (h_status h)), (''provider'', JStr (h_provider h)),
           (''database'', JBool (h_database h)), (''queued'', JInt (h_queued h))]"

definition inbound_json :: "inbound_reply \<Rightarrow> json" where
  "inbound_json reply =
     (case reply of
        Ignored \<Rightarrow> JObj [(''status'', JStr ''ignored'')]
      | Duplicate i \<Rightarrow> JObj [(''status'', JStr ''duplicate''), (''id'', JStr i)]
      | Accepted i n \<Rightarrow>
          JObj [(''status'', JStr ''accepted''), (''id'', JStr i), (''subscribers'', JInt (int n))]
      | Unknown \<Rightarrow> JObj [(''status'', JStr ''unknown'')]
      | Updated i \<Rightarrow> JObj [(''status'', JStr ''updated''), (''id'', JStr i)])"

definition grafana_json :: "nat \<times> nat \<Rightarrow> json" where
  "grafana_json p = JObj [(''accepted'', JInt (int (fst p))), (''notifications'', JInt (int (snd p)))]"

subsection \<open>Events\<close>

record inbound_message =
  e_id :: string
  e_from :: "string option"
  e_to :: "string option"
  e_body :: string
  e_received_at :: instant

record webhook_event =
  e_event :: string
  e_message :: inbound_message

definition event_of :: "message \<Rightarrow> webhook_event" where
  "event_of m =
     \<lparr>e_event = ''message.received'',
      e_message = \<lparr>e_id = mid m, e_from = from_number m, e_to = to_number m, e_body = body m,
                   e_received_at = created_at m\<rparr>\<rparr>"

definition event_json :: "(instant \<Rightarrow> string) \<Rightarrow> webhook_event \<Rightarrow> json" where
  "event_json isoformat e =
     JObj [(''event'', JStr (e_event e)),
           (''message'',
            JObj [(''id'', JStr (e_id (e_message e))), (''from'', opt_json (e_from (e_message e))),
                  (''to'', opt_json (e_to (e_message e))), (''body'', JStr (e_body (e_message e))),
                  (''received_at'', JStr (isoformat (e_received_at (e_message e))))])]"

subsection \<open>Facts\<close>

lemma opt_json_inj [simp]: "opt_json a = opt_json b \<longleftrightarrow> a = b"
  by (simp add: opt_json_def split: option.splits)

lemma direction_value_inj [simp]: "direction_value a = direction_value b \<longleftrightarrow> a = b"
  by (cases a; cases b; simp)

lemma status_value_inj [simp]: "status_value a = status_value b \<longleftrightarrow> a = b"
  by (cases a; cases b; simp)

lemma transport_value_inj [simp]: "transport_value a = transport_value b \<longleftrightarrow> a = b"
  by (cases a; cases b; simp)

text \<open>An answer loses nothing of the view.\<close>

lemma out_json_inj:
  assumes "inj isoformat"
  shows "out_json isoformat a = out_json isoformat b \<longleftrightarrow> a = b"
proof -
  have "inj (map_option isoformat)" using assms by (rule option.inj_map)
  then show ?thesis using assms by (auto simp: out_json_def inj_eq)
qed

text \<open>What \<open>webhooks.py\<close> puts together by hand is the schema's \<open>WebhookEvent\<close>, keys sorted.\<close>

lemma payload_is_event: "payload isoformat m = dumps '','' '':'' (sort_keys (event_json isoformat (event_of m)))"
  by (simp add: payload_def event_json_def event_of_def)

lemma request_of_json_Some:
  assumes "request_of_json as_int v = Some r"
  shows "send_request_valid r"
    and "\<exists>kvs t. v = JObj kvs \<and> map_of kvs ''to'' = Some t \<and> recipients_of t = Some (sr_to r) \<and>
      map_of kvs ''body'' = Some (JStr (sr_body r)) \<and>
      priority_of as_int (map_of kvs ''notification_priority'') = Some (sr_priority r) \<and>
      key_of (map_of kvs ''idempotency_key'') = Some (sr_key r)"
  using assms by (auto simp: request_of_json_def Let_def split: json.splits option.splits if_splits)

lemma recipients_of_list: "recipients_of (JList (map JStr ss)) = Some (Many ss)"
  by (simp add: recipients_of_def list_all_iff comp_def)

lemma request_round_trip:
  assumes "\<And>n. as_int (JInt n) = Some n"
  shows "request_of_json as_int (request_json r) = (if send_request_valid r then Some r else None)"
proof (cases r)
  case (fields rs b p k)
  have "recipients_of (case rs of One s \<Rightarrow> JStr s | Many ss \<Rightarrow> JList (map JStr ss)) = Some rs"
    by (cases rs) (simp_all add: recipients_of_list, simp add: recipients_of_def)
  moreover have "key_of (Some (opt_json k)) = Some k"
    by (simp add: key_of_def opt_json_def split: option.splits)
  ultimately show ?thesis
    using assms by (simp add: fields request_of_json_def request_json_def priority_of_def)
qed

end
