(* ===== verification/Api.thy ===== *)
theory Api
  imports Schemas EndToEnd
begin

section \<open>The API as callers see it (main.py, routes/)\<close>

text \<open>
  The application: which function answers a request, what FastAPI does before it (the body's
  JSON, the guard, the constraints, in this order) and the answer's status and JSON. The
  properties are about confidentiality: what a request reveals and changes without credentials, and
  with the key of one service.
\<close>

datatype endpoint =
    SendMessages
  | ListMessages
  | ReadMessage string
  | AndroidGateway
  | GrafanaHook
  | Health
  | GatewayHealth
  | Index

definition route_of :: "string \<Rightarrow> string \<Rightarrow> endpoint option" where
  "route_of verb path =
     (let messages = ''/api/v1/messages''
      in if verb = ''GET'' then
           if path = ''/api/health'' then Some Health
           else if path = ''/api/health/gateway'' then Some GatewayHealth
           else if starts_with (messages @ ''/'') path \<and> removeprefix (messages @ ''/'') path \<noteq> [] \<and>
                   CHR ''/'' \<notin> set (removeprefix (messages @ ''/'') path)
                then Some (ReadMessage (removeprefix (messages @ ''/'') path))
           else if path = messages then Some ListMessages
           else if path = ''/'' then Some Index
           else None
         else if verb = ''POST'' then
           if path = messages then Some SendMessages
           else if path = ''/api/v1/inbound/android-gateway'' then Some AndroidGateway
           else if path = ''/api/v1/grafana'' then Some GrafanaHook
           else None
         else None)"

record http_in =
  i_verb :: string
  i_path :: string
  i_query :: "string \<Rightarrow> string option"
  i_authorization :: "string option"
  i_api_key :: "string option"
  i_signature :: "string option"
  i_hub_signature :: "string option"
  i_is_json :: bool      \<comment> \<open>the content type\<close>
  i_chunks :: "string list"

datatype answer = Reply int json | Page int string

text \<open>What a request meets: the libraries, the clock and the ids its handler draws, the network.\<close>

record 'n web = "'n externals" +
  w_sha :: "string \<Rightarrow> string"
  w_as_int :: "json \<Rightarrow> int option"
  w_net :: "http_request \<Rightarrow> response res"
  w_page :: "string res"
  w_select1 :: "unit res"
  w_now :: "nat \<Rightarrow> instant"
  w_seed :: "nat \<Rightarrow> row_seed"
  w_inbound :: inbound_seed

text \<open>An \<open>HTTPException\<close> is answered with its detail, any other with a bare 500.\<close>

definition failure :: "exn \<Rightarrow> answer" where
  "failure e =
     (case e of HTTPException code detail \<Rightarrow> Reply code (JObj [(''detail'', JStr detail)])
      | _ \<Rightarrow> Page 500 ''Internal Server Error'')"

definition answer_of :: "int \<Rightarrow> ('a \<Rightarrow> json) \<Rightarrow> 'a res \<Rightarrow> answer" where
  "answer_of code f r = (case r of Inr v \<Rightarrow> Reply code (f v) | Inl e \<Rightarrow> failure e)"

definition raw_of :: "http_in \<Rightarrow> string" where
  "raw_of rq = concat (i_chunks rq)"

text \<open>FastAPI reads a JSON body before the guard runs, and refuses one that is no JSON.\<close>

definition read_json :: "'n web \<Rightarrow> http_in \<Rightarrow> json res" where
  "read_json w rq =
     (if raw_of rq = [] then Inr JNull
      else if \<not> i_is_json rq then Inr (JStr (raw_of rq))
      else case x_loads w (raw_of rq) of
             Inr v \<Rightarrow> Inr v
           | Inl JSONDecodeError \<Rightarrow> Inl (HTTPException 422 ''validation error'')
           | Inl _ \<Rightarrow> Inl (HTTPException 400 ''There was an error parsing the body''))"

definition serve_send ::
  "'n web \<Rightarrow> config \<Rightarrow> http_in \<Rightarrow> database \<Rightarrow> database \<Rightarrow> database \<Rightarrow> message_out list res \<times> database"
where
  "serve_send w cfg rq db0 db1 db2 =
     (case rbind (read_json w rq) (\<lambda>v.
           rbind (require_api_key cfg (i_authorization rq) (i_api_key rq)) (\<lambda>svc.
             case request_of_json (w_as_int w) v of
               None \<Rightarrow> Inl (HTTPException 422 ''validation error'')
             | Some r \<Rightarrow> Inr (svc, r))) of
        Inl e \<Rightarrow> (Inl e, db1)
      | Inr (svc, r) \<Rightarrow> send_message (x_lib w) (x_re_search w) cfg r svc (w_seed w) db0 db1 db2)"

definition query_int :: "'n web \<Rightarrow> http_in \<Rightarrow> string \<Rightarrow> int \<Rightarrow> int option" where
  "query_int w rq name fallback =
     (case i_query rq name of None \<Rightarrow> Some fallback | Some s \<Rightarrow> w_as_int w (JStr s))"

definition serve_list :: "'n web \<Rightarrow> config \<Rightarrow> http_in \<Rightarrow> database \<Rightarrow> database \<Rightarrow> (message_out list \<times> nat) res" where
  "serve_list w cfg rq db0 db1 =
     rbind (require_api_key cfg (i_authorization rq) (i_api_key rq)) (\<lambda>svc.
       case (query_int w rq ''limit'' 50, query_int w rq ''offset'' 0) of
         (Some limit, Some offset) \<Rightarrow>
           list_messages db0 db1 svc (i_query rq ''direction'') (i_query rq ''status'') limit offset
       | _ \<Rightarrow> Inl (HTTPException 422 ''validation error''))"

definition serve_gateway_health :: "'n web \<Rightarrow> config \<Rightarrow> answer" where
  "serve_gateway_health w cfg =
     (case gateway_health (w_net w) cfg of
        Inr (text, code) \<Rightarrow> Reply code (JObj [(''status'', JStr text)])
      | Inl e \<Rightarrow> failure e)"

definition index :: "'n web \<Rightarrow> answer" where
  "index w = (case w_page w of Inr html \<Rightarrow> Page 200 html | Inl e \<Rightarrow> failure e)"

text \<open>
  The tables as a request finds them at its first query, its commit, and a query after that;
  no answer where no route of the program matches, which FastAPI answers by itself.
\<close>

definition serve ::
  "'n web \<Rightarrow> config \<Rightarrow> http_in \<Rightarrow> database \<Rightarrow> database \<Rightarrow> database \<Rightarrow> answer option \<times> database"
where
  "serve w cfg rq db0 db1 db2 =
     (case route_of (i_verb rq) (i_path rq) of
        None \<Rightarrow> (None, db1)
      | Some SendMessages \<Rightarrow>
          map_prod (\<lambda>r. Some (answer_of 202 (send_response_json (x_isoformat w)) r)) id
            (serve_send w cfg rq db0 db1 db2)
      | Some ListMessages \<Rightarrow>
          (Some (answer_of 200 (message_list_json (x_isoformat w)) (serve_list w cfg rq db0 db1)), db1)
      | Some (ReadMessage i) \<Rightarrow>
          (Some (answer_of 200 (out_json (x_isoformat w))
             (get_messages_id cfg (i_authorization rq) (i_api_key rq) i db1)), db1)
      | Some AndroidGateway \<Rightarrow>
          map_prod (\<lambda>r. Some (answer_of 202 inbound_json r)) id
            (android_gateway_inbound (x_hmac w) (x_loads w) (x_lib w) cfg (x_fromiso w) (x_bind w) (w_inbound w)
               (i_signature rq) (i_hub_signature rq) (raw_of rq) db0 db1)
      | Some GrafanaHook \<Rightarrow>
          map_prod (\<lambda>r. Some (answer_of 202 grafana_json r)) id
            (post_grafana (w_sha w) (x_loads w) (x_fromiso w) (w_now w) (x_lib w) (x_re_search w) cfg
               (i_authorization rq) (i_api_key rq) (i_chunks rq) (w_seed w) db0 db1 db2)
      | Some Health \<Rightarrow> (Some (Reply 200 (health_json (health cfg (w_select1 w) db1))), db1)
      | Some GatewayHealth \<Rightarrow> (Some (serve_gateway_health w cfg), db1)
      | Some Index \<Rightarrow> (Some (index w), db1))"

text \<open>A POST of a request's JSON is the route of \<open>EndToEnd\<close>.\<close>

lemma serve_send_is_post:
  assumes "read_json w rq = Inr (request_json r)" and "\<And>n. w_as_int w (JInt n) = Some n"
  shows "serve_send w cfg rq db0 db1 db2 =
    post_messages (x_lib w) (x_re_search w) cfg (i_authorization rq) (i_api_key rq) r (w_seed w) db0 db1 db2"
  using assms(1) request_round_trip [of "w_as_int w" r] assms(2)
  by (auto simp: serve_send_def post_messages_def split: sum.splits)

subsection \<open>What a service can see\<close>

definition agrees :: "string \<Rightarrow> database \<Rightarrow> database \<Rightarrow> bool" where
  "agrees svc d d' \<longleftrightarrow> filter (readable svc) (messages d) = filter (readable svc) (messages d')"

lemma agrees_filter:
  assumes "agrees svc d d'" and "\<And>m. P m \<Longrightarrow> readable svc m"
  shows "filter P (messages d) = filter P (messages d')"
proof -
  have "filter P xs = filter P (filter (readable svc) xs)" for xs
    using assms(2) by (auto intro: filter_cong)
  then show ?thesis using assms(1) by (metis agrees_def)
qed

lemma agrees_list:
  "agrees svc d0 d0' \<Longrightarrow> agrees svc d1 d1' \<Longrightarrow>
   list_messages d0 d1 svc dir st limit offset = list_messages d0' d1' svc dir st limit offset"
  using agrees_filter [of svc _ _ "list_filter svc dir st"]
  by (simp add: list_messages_def list_filter_def readable_def)

lemma agrees_key_lookup:
  assumes "agrees svc d d'"
  shows "key_lookup r svc d = key_lookup r svc d'"
proof (cases "sr_key r")
  case (Some k)
  have "filter (\<lambda>m. service m = svc \<and> idempotency_key m = Some k) (messages d) =
      filter (\<lambda>m. service m = svc \<and> idempotency_key m = Some k) (messages d')"
    by (rule agrees_filter [OF assms]) (simp add: readable_def)
  with Some show ?thesis by (simp add: key_lookup_def existing_by_idempotency_key_def)
qed (simp add: key_lookup_def)

lemma agrees_get:
  assumes "db_ok d" "db_ok d'" "agrees svc d d'"
  shows "get_message d svc i = get_message d' svc i"
proof -
  have mem: "m \<in> set (messages d) \<and> readable svc m \<longleftrightarrow> m \<in> set (messages d') \<and> readable svc m" for m
    using arg_cong [OF assms(3) [unfolded agrees_def], of set] by auto
  have iff: "get_message d svc i = Inr out \<longleftrightarrow> get_message d' svc i = Inr out" for out
    unfolding get_message_iff [OF assms(1)] get_message_iff [OF assms(2)] using mem by blast
  have not_found: "get_message x svc i = Inl e \<Longrightarrow> e = HTTPException 404 ''message not found''" for x e
    by (auto simp: get_message_def split: option.splits if_splits)
  show ?thesis
  proof (cases "get_message d svc i")
    case (Inl e)
    moreover from this obtain e' where "get_message d' svc i = Inl e'" using iff by (cases "get_message d' svc i") auto
    ultimately show ?thesis using not_found by metis
  next
    case (Inr out)
    then show ?thesis using iff by metis
  qed
qed

lemma agrees_idem_keys: "agrees svc d d' \<Longrightarrow> (svc, k) \<in> set (idem_keys (messages d)) \<longleftrightarrow> (svc, k) \<in> set (idem_keys (messages d'))"
  using arg_cong [OF agrees_filter [of svc d d' "\<lambda>m. service m = svc \<and> idempotency_key m = k"], of set]
  by (auto simp: idem_keys_def readable_def)

lemma agrees_insert:
  assumes "db_ok d" "db_ok d'" "agrees svc d d'" and "\<forall>m \<in> set ms. service m = svc \<and> mid m \<notin> ids d \<union> ids d'"
  shows "rel_sum (=) (agrees svc) (insert_messages ms d) (insert_messages ms d')"
proof -
  have split: "messages_ok (messages x @ ms) \<longleftrightarrow>
      messages_ok ms \<and> (\<forall>k \<in> set (idem_keys ms). k \<notin> set (idem_keys (messages x)))"
    if "db_ok x" "\<forall>m \<in> set ms. mid m \<notin> ids x" for x
  proof -
    have "\<forall>a \<in> mid ` set ms. a \<notin> mid ` set (messages x)" using that(2) by (simp add: ids_def)
    then have "mid ` set (messages x) \<inter> mid ` set ms = {}" by blast
    then show ?thesis using that(1) by (auto simp: messages_ok_def db_ok_def)
  qed
  have "\<forall>p \<in> set (idem_keys ms). fst p = svc" using assms(4) by (auto simp: idem_keys_def)
  then have "(\<forall>k \<in> set (idem_keys ms). k \<notin> set (idem_keys (messages d))) \<longleftrightarrow>
      (\<forall>k \<in> set (idem_keys ms). k \<notin> set (idem_keys (messages d')))"
    using agrees_idem_keys [OF assms(3)] by (metis prod.collapse)
  then have "messages_ok (messages d @ ms) \<longleftrightarrow> messages_ok (messages d' @ ms)"
    using split [OF assms(1)] split [OF assms(2)] assms(4) by simp
  then show ?thesis using assms(3) by (simp add: insert_messages_def agrees_def)
qed

lemma agrees_refl [simp]: "agrees svc d d"
  by (simp add: agrees_def)

lemma agrees_send:
  assumes "db_ok d1" "db_ok d1'" and "agrees svc d0 d0'" "agrees svc d1 d1'" "agrees svc d2 d2'"
    and fresh: "\<forall>i. seed_id (fresh i) \<notin> ids d1 \<union> ids d1'"
  shows "rel_prod (=) (agrees svc) (send_message lib re_search cfg r svc fresh d0 d1 d2)
    (send_message lib re_search cfg r svc fresh d0' d1' d2')"
proof -
  have keys: "key_lookup r svc d0' = key_lookup r svc d0" "key_lookup r svc d2' = key_lookup r svc d2"
    using agrees_key_lookup assms(3,5) by metis+
  have ins: "rel_sum (=) (agrees svc) (insert_messages ms d1) (insert_messages ms d1')"
    if c: "created_rows lib re_search cfg r svc fresh ns = Inr ms" for ns ms
  proof (rule agrees_insert [OF assms(1,2,4)], rule ballI)
    fix m assume m: "m \<in> set ms"
    then have "mid m \<in> set (map mid ms)" by simp
    then obtain i where "mid m = seed_id (fresh i)" unfolding created_rows_Inr(4) [OF c] by auto
    then show "service m = svc \<and> mid m \<notin> ids d1 \<union> ids d1'" using created_rows_Inr(2) [OF c m] fresh by metis
  qed
  then show ?thesis
    using assms(4) unfolding send_message_def keys
    by (auto split: sum.splits option.splits dest!: ins)
qed

lemma agrees_grafana:
  assumes "agrees svc db1 db1'"
    and send: "\<And>r. rel_prod (=) (agrees svc) (send_message lib re_search cfg r svc fresh db0 db1 db2)
      (send_message lib re_search cfg r svc fresh db0' db1' db2')"
  shows "rel_prod (=) (agrees svc) (grafana sha loads fromiso now lib re_search cfg svc chunks fresh db0 db1 db2)
    (grafana sha loads fromiso now lib re_search cfg svc chunks fresh db0' db1' db2')"
proof (cases "grafana_prepare sha loads fromiso now cfg svc chunks")
  case (Inr p)
  obtain r n where p: "p = (r, n)" by fastforce
  obtain res d d' where "send_message lib re_search cfg r svc fresh db0 db1 db2 = (res, d)"
    "send_message lib re_search cfg r svc fresh db0' db1' db2' = (res, d')" "agrees svc d d'"
    using send [of r] by (auto simp: rel_prod_sel prod_eq_iff)
  with Inr p show ?thesis by (simp add: grafana_def split: sum.splits)
qed (use assms(1) in \<open>simp add: grafana_def\<close>)

text \<open>A request with the credentials its route asks for; the last three routes are open to all.\<close>

definition has_key_of :: "config \<Rightarrow> http_in \<Rightarrow> string \<Rightarrow> bool" where
  "has_key_of cfg rq svc \<longleftrightarrow> require_api_key cfg (i_authorization rq) (i_api_key rq) = Inr svc"

definition is_signed :: "'n web \<Rightarrow> config \<Rightarrow> http_in \<Rightarrow> bool" where
  "is_signed w cfg rq \<longleftrightarrow>
     \<not> isl (verify_inbound_signature (x_hmac w) cfg (i_signature rq) (i_hub_signature rq) (raw_of rq))"

definition open_routes :: "endpoint option list" where
  "open_routes = [None, Some Health, Some GatewayHealth, Some Index]"

definition credentials :: "'n web \<Rightarrow> config \<Rightarrow> http_in \<Rightarrow> bool" where
  "credentials w cfg rq \<longleftrightarrow>
     (if route_of (i_verb rq) (i_path rq) = Some AndroidGateway then is_signed w cfg rq
      else route_of (i_verb rq) (i_path rq) \<notin> set open_routes \<and> \<not> isl (require_api_key cfg (i_authorization rq) (i_api_key rq)))"

lemma no_key:
  assumes "isl (require_api_key cfg (i_authorization rq) (i_api_key rq))"
  obtains e where "require_api_key cfg (i_authorization rq) (i_api_key rq) = Inl e"
  using assms by (auto simp: isl_def)

lemma unkeyed:
  assumes "isl (require_api_key cfg (i_authorization rq) (i_api_key rq))"
  shows "\<exists>e. serve_send w cfg rq = (\<lambda>db0 db1 db2. (Inl e, db1))"
    and "\<exists>e. serve_list w cfg rq = (\<lambda>db0 db1. Inl e)"
    and "\<exists>e. get_messages_id cfg (i_authorization rq) (i_api_key rq) i = (\<lambda>db. Inl e)"
    and "\<exists>e. post_grafana sha loads fromiso now lib re_search cfg (i_authorization rq) (i_api_key rq) chunks fresh =
      (\<lambda>db0 db1 db2. (Inl e, db1))"
proof -
  obtain e where e: "require_api_key cfg (i_authorization rq) (i_api_key rq) = Inl e" using no_key [OF assms] .
  show "\<exists>e. serve_send w cfg rq = (\<lambda>db0 db1 db2. (Inl e, db1))"
    by (cases "read_json w rq") (auto simp: fun_eq_iff serve_send_def e)
  show "\<exists>e. serve_list w cfg rq = (\<lambda>db0 db1. Inl e)"
    "\<exists>e. get_messages_id cfg (i_authorization rq) (i_api_key rq) i = (\<lambda>db. Inl e)"
    "\<exists>e. post_grafana sha loads fromiso now lib re_search cfg (i_authorization rq) (i_api_key rq) chunks fresh =
      (\<lambda>db0 db1 db2. (Inl e, db1))"
    by (simp_all add: fun_eq_iff serve_list_def get_messages_id_def post_grafana_def e)
qed

lemma unsigned:
  assumes "\<not> is_signed w cfg rq"
  shows "\<exists>e. android_gateway_inbound (x_hmac w) loads lib cfg fromiso bind_other seed (i_signature rq)
    (i_hub_signature rq) (raw_of rq) = (\<lambda>db0 db1. (Inl e, db1))"
  using assms by (auto simp: is_signed_def isl_def fun_eq_iff android_gateway_inbound_def)

lemma answer_Inl [simp]: "answer_of code f (Inl e) = failure e"
  by (simp add: answer_of_def)

lemma health_queue: "queue_depth d = queue_depth d' \<Longrightarrow> health cfg s d = health cfg s d'"
  by (simp add: health_def Let_def)

subsection \<open>Properties\<close>

text \<open>
  C9. Nothing is reachable without credentials: a request that does not bring what its route
  asks for, a configured key or, for the gateway's events, a valid signature, changes nothing;
  its answer is the same for any two states of the tables with as many messages queued, so it can
  reveal that number and nothing else; and on a guarded route it is an error.
\<close>

theorem api_needs_credentials:
  assumes "\<not> credentials w cfg rq" and "queue_depth db1 = queue_depth db1'"
  shows "serve w cfg rq db0 db1 db2 = (fst (serve w cfg rq db0' db1' db2'), db1) \<and>
    (route_of (i_verb rq) (i_path rq) \<notin> set open_routes \<longrightarrow> (\<exists>e. fst (serve w cfg rq db0 db1 db2) = Some (failure e)))"
proof (cases "route_of (i_verb rq) (i_path rq) \<in> set open_routes")
  case True
  then show ?thesis using health_queue [OF assms(2), of cfg "w_select1 w"] by (auto simp: open_routes_def serve_def)
next
  case False
  show ?thesis
  proof (cases "route_of (i_verb rq) (i_path rq) = Some AndroidGateway")
    case True
    then obtain e where "android_gateway_inbound (x_hmac w) (x_loads w) (x_lib w) cfg (x_fromiso w) (x_bind w) (w_inbound w)
        (i_signature rq) (i_hub_signature rq) (raw_of rq) = (\<lambda>db0 db1. (Inl e, db1))"
      using unsigned assms(1) unfolding credentials_def by (metis (no_types))
    then show ?thesis using True by (auto simp: serve_def)
  next
    case other: False
    then have "isl (require_api_key cfg (i_authorization rq) (i_api_key rq))"
      using assms(1) False by (simp add: credentials_def)
    note e = unkeyed [OF this]
    from False other consider "route_of (i_verb rq) (i_path rq) = Some SendMessages"
      | "route_of (i_verb rq) (i_path rq) = Some ListMessages"
      | i where "route_of (i_verb rq) (i_path rq) = Some (ReadMessage i)"
      | "route_of (i_verb rq) (i_path rq) = Some GrafanaHook"
      unfolding open_routes_def by (cases "route_of (i_verb rq) (i_path rq)"; cases "the (route_of (i_verb rq) (i_path rq))") auto
    then show ?thesis
    proof cases
      case 1
      obtain e where "serve_send w cfg rq = (\<lambda>db0 db1 db2. (Inl e, db1))" using e(1) by blast
      with 1 show ?thesis by (auto simp: serve_def)
    next
      case 2
      obtain e where "serve_list w cfg rq = (\<lambda>db0 db1. Inl e)" using e(2) by blast
      with 2 show ?thesis by (auto simp: serve_def)
    next
      case 3
      obtain e where "get_messages_id cfg (i_authorization rq) (i_api_key rq) i = (\<lambda>db. Inl e)" using e(3) by blast
      with 3 show ?thesis by (auto simp: serve_def)
    next
      case 4
      obtain e where "post_grafana (w_sha w) (x_loads w) (x_fromiso w) (w_now w) (x_lib w) (x_re_search w) cfg
          (i_authorization rq) (i_api_key rq) (i_chunks rq) (w_seed w) = (\<lambda>db0 db1 db2. (Inl e, db1))" using e(4) by blast
      with 4 show ?thesis by (auto simp: serve_def)
    qed
  qed
qed

definition sample_web :: "string web" where
  "sample_web =
     \<lparr>x_lib = sample_lib, x_re_search = (\<lambda>_ _. Inr True), x_hmac = (\<lambda>_ _. ''5a''),
      x_loads = (\<lambda>_. Inl JSONDecodeError), x_fromiso = (\<lambda>_. None), x_isoformat = (\<lambda>_. []),
      x_bind = (\<lambda>_. Inl (OtherException [])), w_sha = (\<lambda>s. s), w_as_int = (\<lambda>_. None), w_net = sample_gateway,
      w_page = Inr ''log'', w_select1 = Inr (), w_now = (\<lambda>_. 0), w_seed = sample_seed, w_inbound = sample_inbound_seed\<rparr>"

definition sample_get :: "string \<Rightarrow> string option \<Rightarrow> http_in" where
  "sample_get path key =
     \<lparr>i_verb = ''GET'', i_path = path, i_query = (\<lambda>_. None), i_authorization = None, i_api_key = key,
      i_signature = None, i_hub_signature = None, i_is_json = False, i_chunks = []\<rparr>"

theorem api_needs_credentials_witness:
  "\<exists>e. serve sample_web sample_config (sample_get ''/api/v1/messages/m1'' (Some ''wrong''))
       two_queued two_queued two_queued = (Some (failure e), two_queued)"
proof -
  let ?rq = "sample_get ''/api/v1/messages/m1'' (Some ''wrong'')"
  have route: "route_of (i_verb ?rq) (i_path ?rq) = Some (ReadMessage ''m1'')" by code_simp
  have "isl (require_api_key sample_config None (Some ''wrong''))" by code_simp
  then have closed: "\<not> credentials sample_web sample_config ?rq"
    by (simp add: credentials_def route) (simp add: sample_get_def)
  note c = api_needs_credentials [OF closed refl, of two_queued two_queued two_queued two_queued two_queued]
  have "\<exists>e. fst (serve sample_web sample_config ?rq two_queued two_queued two_queued) = Some (failure e)"
    by (rule mp [OF conjunct2 [OF c]]) (simp add: route open_routes_def)
  with conjunct1 [OF c] show ?thesis by (metis prod.collapse)
qed


definition other_tenant :: message where
  "other_tenant = sample_message\<lparr>mid := ''m2'', service := ''billing''\<rparr>"


end
