(* ===== verification/Demo.thy ===== *)
theory Demo
  imports EndToEnd
begin

section \<open>The demo instance (docs/capture/serve_demo.py)\<close>

text \<open>
  The script behind the documentation's screenshots fills an empty database with invented
  messages and serves the application over it. \<open>uuid\<close> and \<open>jitter\<close> are what \<open>uuid4\<close> and the
  random generator yield for the i-th message.
\<close>

definition SEED :: "(string \<times> direction \<times> string \<times> string \<times> message_status \<times> int) list" where
  "SEED =
     [(''talaria'', OUTBOUND, ''+15550100'', ''Watch hit: 1979 Krugerrand at $2,520 - 51 bids, ends 18:04'', DELIVERED, 4),
      (''talaria'', OUTBOUND, ''+15550100'', ''Ending soon: 6 watched auctions close in the next 2 hours.'', DELIVERED, 22),
      (''talaria'', INBOUND, ''+15550142'', ''STOP'', RECEIVED, 38),
      (''money'', OUTBOUND, ''+15550100'', ''Net worth snapshot written. Investable $1.1M.'', DELIVERED, 47),
      (''talaria'', OUTBOUND, ''+15550100'', ''Outbid on '' @ [CHR 0x27] @ ''Cast Iron Barber Pole'' @ [CHR 0x27] @ '' at $1,700.'', DELIVERED, 63),
      (''talaria'', OUTBOUND, ''+15550199'', ''Watch hit: Halo 5 Xbox One at $6.00, 90% under typical'', FAILED, 88),
      (''gamedex'', INBOUND, ''+15550142'', ''status'', RECEIVED, 104),
      (''talaria'', OUTBOUND, ''+15550100'', ''Price drop: '' @ [CHR 0x27] @ ''Seiken Densetsu 3'' @ [CHR 0x27] @ '' now $41.00 (-18%).'', DELIVERED, 131),
      (''talaria'', OUTBOUND, ''+15550100'', ''Rare find: sealed Trials of Mana, 2 bids, 4h left.'', SENT, 160),
      (''talaria'', INBOUND, ''+15550188'', ''SNOOZE 2h'', RECEIVED, 186),
      (''talaria'', OUTBOUND, ''+15550100'', ''Snoozed. Next digest at 21:00.'', DELIVERED, 187),
      (''gamedex'', OUTBOUND, ''+15550100'', ''Workbook re-parsed: 47 rows changed.'', DELIVERED, 214),
      (''talaria'', OUTBOUND, ''+15550100'', ''Daily digest: 34 new listings across 6 watches.'', DELIVERED, 262),
      (''talaria'', OUTBOUND, ''+15550100'', ''Gateway unreachable - queued, retrying.'', QUEUED, 305)]"

definition demo_row ::
  "(nat \<Rightarrow> string) \<Rightarrow> (nat \<Rightarrow> int) \<Rightarrow> instant \<Rightarrow>
   nat \<times> string \<times> direction \<times> string \<times> string \<times> message_status \<times> int \<Rightarrow> message"
where
  "demo_row uuid jitter now =
     (\<lambda>(i, svc, dir, addr, text, st, mins).
        let created = now - seconds (60 * mins)
        in (new_message (uuid i) created (created + seconds (jitter i)))
             \<lparr>service := svc, direction := dir, to_number := (if dir = OUTBOUND then Some addr else None),
              from_number := (if dir = INBOUND then Some addr else None), body := text, status := st,
              attempts := (if st = FAILED then 3 else 1), idempotency_key := Some (''demo-'' @ dec_nat i)\<rparr>)"

definition seed_demo ::
  "(nat \<Rightarrow> string) \<Rightarrow> (nat \<Rightarrow> int) \<Rightarrow> instant \<Rightarrow> database \<Rightarrow> database res"
where
  "seed_demo uuid jitter now db = insert_messages (map (demo_row uuid jitter now) (enumerate 0 SEED)) db"

definition demo_keys :: json where
  "demo_keys = JObj [(''talaria'', JStr ''demo-key''), (''money'', JStr ''key-money''), (''gamedex'', JStr ''key-gamedex'')]"

definition demo_environ :: "string \<Rightarrow> string \<Rightarrow> environ" where
  "demo_environ db out = map_of
     [(''SMS_RELAY_DB_PATH'', db), (''SMS_RELAY_PROVIDER'', ''dev''), (''SMS_RELAY_DEV_OUTPUT_DIR'', out),
      (''SMS_RELAY_API_KEYS'', dumps '', '' '': '' demo_keys), (''SMS_RELAY_WEBHOOK_SECRET'', ''demo-webhook-secret''),
      (''SMS_RELAY_RATE_LIMIT_PER_MINUTE'', ''600''), (''SMS_RELAY_DEFAULT_REGION'', ''US''), (''SMS_RELAY_SUBSCRIBERS'', ''[]'')]"

subsection \<open>Facts\<close>

abbreviation demo_rows :: "(nat \<Rightarrow> string) \<Rightarrow> (nat \<Rightarrow> int) \<Rightarrow> instant \<Rightarrow> message list" where
  "demo_rows uuid jitter now \<equiv> map (demo_row uuid jitter now) (enumerate 0 SEED)"

lemma demo_fields:
  "map mid (demo_rows uuid jitter now) = map uuid [0..<14]"
  "idem_keys (demo_rows uuid jitter now) = map (\<lambda>(i, svc, _). (svc, Some (''demo-'' @ dec_nat i))) (enumerate 0 SEED)"
  by (simp_all add: SEED_def demo_row_def new_message_def Let_def idem_keys_def upt_rec)

text \<open>With fresh ids the seed is stored, in consistent tables.\<close>

lemma demo_seeded:
  assumes "inj uuid"
  shows "seed_demo uuid jitter now \<lparr>messages = [], deliveries = []\<rparr> =
      Inr \<lparr>messages = demo_rows uuid jitter now, deliveries = []\<rparr>"
    and "db_ok \<lparr>messages = demo_rows uuid jitter now, deliveries = []\<rparr>"
proof -
  have "distinct (map mid (demo_rows uuid jitter now))"
    unfolding demo_fields using inj_on_subset [OF assms subset_UNIV] by (simp add: distinct_map)
  moreover have "inj_on (\<lambda>(i, svc, _). (svc, Some (''demo-'' @ dec_nat i))) (set (enumerate 0 SEED))"
    by (auto simp: inj_on_def dec_nat_inj in_set_enumerate_eq)
  then have "distinct (idem_keys (demo_rows uuid jitter now))"
    unfolding demo_fields by (simp add: distinct_map distinct_enumerate)
  ultimately have "messages_ok (demo_rows uuid jitter now)" by (simp add: messages_ok_def)
  then show "seed_demo uuid jitter now \<lparr>messages = [], deliveries = []\<rparr> =
      Inr \<lparr>messages = demo_rows uuid jitter now, deliveries = []\<rparr>"
    "db_ok \<lparr>messages = demo_rows uuid jitter now, deliveries = []\<rparr>"
    by (simp_all add: seed_demo_def insert_messages_def db_ok_def deliveries_ok_def)
qed

text \<open>The log view of the demo's key: the ten messages of its service and every received one.\<close>

lemma demo_view:
  "map body (filter (readable ''talaria'') (demo_rows uuid jitter now)) =
   map (\<lambda>(_, _, _, text, _). text) (filter (\<lambda>(svc, dir, _). svc = ''talaria'' \<or> dir = INBOUND) SEED)"
  by (simp add: SEED_def demo_row_def new_message_def Let_def readable_def)

text \<open>
  The row that the screenshots mean to show as queued is due at once: the demo's send loop
  hands it to the provider in its first turn.
\<close>

lemma demo_queued_is_due:
  "map body (filter (is_due t) (demo_rows uuid jitter now)) = [''Gateway unreachable - queued, retrying.'']"
  by (simp add: SEED_def demo_row_def new_message_def Let_def is_due_def)

text \<open>The environment is read as meant: the dev provider, ten texts a second, one key per service, nobody to push to.\<close>

lemma demo_settings:
  assumes "loads (dumps '', '' '': '' demo_keys) = Some demo_keys" and "loads ''[]'' = Some (JList [])"
  shows "provider_name (load_config loads (demo_environ db out)) = ''dev''"
    and "rate_limit_per_minute (load_config loads (demo_environ db out)) = 600"
    and "api_keys (load_config loads (demo_environ db out)) =
      [(''demo-key'', ''talaria''), (''key-money'', ''money''), (''key-gamedex'', ''gamedex'')]"
    and "subscribers (load_config loads (demo_environ db out)) = Inr []"
proof -
  have env: "env_str (demo_environ db out) ''SMS_RELAY_PROVIDER'' d = ''dev''"
    "env_int (demo_environ db out) ''SMS_RELAY_RATE_LIMIT_PER_MINUTE'' 30 = 600"
    "env_str (demo_environ db out) ''SMS_RELAY_API_KEYS'' d = dumps '', '' '': '' demo_keys"
    "env_str (demo_environ db out) ''SMS_RELAY_SUBSCRIBERS'' d = ''[]''" for d
    by (simp add: env_str_def demo_environ_def; code_simp)+
  have keys: "dumps '', '' '': '' demo_keys \<noteq> []" by (simp add: demo_keys_def)
  show "provider_name (load_config loads (demo_environ db out)) = ''dev''"
    "rate_limit_per_minute (load_config loads (demo_environ db out)) = 600"
    by (simp_all add: load_config_def env)
  have "api_keys_of demo_keys = [(''demo-key'', ''talaria''), (''key-money'', ''money''), (''key-gamedex'', ''gamedex'')]"
    by code_simp
  then show "api_keys (load_config loads (demo_environ db out)) =
      [(''demo-key'', ''talaria''), (''key-money'', ''money''), (''key-gamedex'', ''gamedex'')]"
    by (simp add: load_config_def env_json_def env assms(1) keys Let_def)
  have "subscribers_of (JList []) = Inr []" by code_simp
  then show "subscribers (load_config loads (demo_environ db out)) = Inr []"
    by (simp add: load_config_def env_json_def env assms(2) Let_def)
qed

end
