(* ===== verification/Spec2Isabelle.thy ===== *)
theory Spec2Isabelle
  imports Db Phone Auth Providers Notifications Retry RateLimiter Drain Fanout JsonText Service LifeCycle Loops Lifespan EndToEnd Settle Api Demo
begin

text \<open>
  A verification development for sms-relay: a self-hosted SMS gateway in Python
  (\<open>app/sms_relay/\<close>), one process with an HTTP API (FastAPI), a SQLite database
  (SQLAlchemy) and four background loops on one asyncio event loop.

  \<^bold>\<open>The program.\<close> A service posts a message (\<open>routes/messages.py\<close>, or Grafana through
  \<open>routes/grafana.py\<close>); it becomes a row in status queued, routed to SMS or to an ntfy topic
  (\<open>notifications.py\<close>). The send loop (\<open>worker.py\<close>) claims the oldest due row, publishes it to
  ntfy or hands it to the SMS provider (\<open>providers/\<close>) and stores the outcome; failures are
  retried with backoff. Received SMS and delivery receipts are pushed to
  \<open>routes/inbound.py\<close> under an HMAC signature (\<open>auth.py\<close>); a received message is stored
  and fanned out to subscribers as delivery rows (\<open>webhooks.py\<close>), which the fan-out loop
  works off. Two more loops poll for receipts and prune old rows.

  \<^bold>\<open>Theories, in the order of the imports.\<close>

  \<^item> Prelude: instants in microseconds, Python exceptions as the datatype \<open>exn\<close>, results
    \<open>'a res = exn + 'a\<close> with \<open>rbind\<close> and \<open>mapR\<close>, shared list lemmas. PyStr: the \<open>str\<close> methods
    used (\<open>strip\<close>, \<open>int\<close>, decimal text). PyJson: JSON values with Python's truth value, \<open>str\<close>,
    \<open>dict.get\<close>, indexing and \<open>json.dumps\<close>.
  \<^item> Models (models.py): the two tables' rows as records with every column, the enumerations,
    the column defaults, and which columns an ORM object writes back at a flush. Db (db.py and
    the session calls): lists of rows, flush and commit, unique constraints and the foreign key
    (\<open>db_ok\<close>), insert, cascading delete; then \<open>init_db\<close>. Engine
    (db.py): the two globals, the pragmas, and why deleting needs one of them. Locale \<open>keyed_table\<close>, interpreted
    for both tables.
  \<^item> Config (config.py), Phone (phone.py), Auth (auth.py), Http (the HTTP calls as values),
    Providers (providers/), Notifications (notifications.py): one definition per function.
    Locale \<open>receipt_source\<close> (what a provider may report), interpreted for both providers.
  \<^item> Retry: locales \<open>backoff_policy\<close> and \<open>bounded_retry\<close>, interpreted for the send loop (Worker)
    and for deliveries (Webhooks), and \<open>works_off\<close>, interpreted for both loops (Settle). RateLimiter: \<open>worker.py\<close>'s sliding window.
  \<^item> Outbound (routes/messages.py, schemas.py), Webhooks (webhooks.py), Inbound
    (routes/inbound.py), Grafana (routes/grafana.py), Service (routes/health.py, metrics.py): the
    handlers. Schemas (schemas.py): the JSON they read and answer. JsonText: that the JSON texts the code signs and hashes determine their data.
  \<^item> Worker (worker.py): claim, requeue, outcomes, the bodies of the four loops as functions.
    Drain: the send loop as repeated turns. Fanout: an iteration of the fan-out loop.
    Settle: both loops over many turns while the provider and the subscribers fail, with the tries the rows have
    left as a potential.
  \<^item> Contract, Relay, SendLoop, Safety: the whole service. Locale \<open>bystander\<close> is the contract of
    every operation other than the send loop (rows queued or sending are not touched), interpreted for
    five of them. \<open>relay_step\<close> is the step relation: the send loop cut at every await, each
    other operation one step that computes from any earlier state of the tables and commits to the current
    one, and crashes. SendLoop shows that the loop's body as one function is a run of these
    steps. Safety has what holds of all reachable states.
    LifeCycle: the life of a message as a small automaton, which every run of the service implements.
  \<^item> Loops (worker.py): the pacing of the four loops and how they stop. Lifespan (main.py,
    providers/__init__.py): start-up, shutdown, and what a restart leaves behind. EndToEnd: the routes
    with their guard; a message followed from its POST to the GET that reports it sent, and a received one
    from its event to the subscribers. Api (main.py): the routing table and \<open>serve\<close>, from a request to its
    answer; what a caller without credentials, or with those of one service, can see. Demo
    (docs/capture/serve_demo.py): the rows of the documentation's demo.

  \<^bold>\<open>State.\<close> \<open>database\<close> is the two tables as lists of rows in insertion order. A handler that
  awaits takes one database argument per moment at which it looks (\<open>db0\<close> at its first query,
  \<open>db1\<close> at its commit, \<open>db2\<close> at the query after a failed commit); where nothing interferes they
  are equal. Handlers return the response or exception and the database they leave. Readings of
  the clock and ids of \<open>uuid4\<close> are arguments, one per call of the source.

  \<^bold>\<open>What is shown.\<close> The properties C1 to C40 stand each under its own text: invariants of all
  reachable states and of whole runs (Safety), refinement of the life cycle (LifeCycle), a message
  from request to phone and from phone to subscribers (EndToEnd), that nothing is reachable without credentials
  and that services are isolated from each other (Api), what a restart strands (Lifespan), how
  many texts leave in a minute and how soon the loops end (Loops); what each outcome, claim, requeue, poll and prune
  does to the rows (Worker), that the queue is worked off in order (Drain) and that every message and every delivery is settled in the
  end, whatever the other side answers (Settle), what a fan-out batch
  records (Fanout), acceptance, idempotency, atomicity and paging of the API
  (Outbound); the inbound route (Inbound); waiting for a slot (RateLimiter); fan-out (Webhooks) and its
  signatures (JsonText with Auth); routing (Notifications); the Grafana parser and its grouping (Grafana,
  JsonText); migration, monitoring.

  \<^bold>\<open>Bounds.\<close> No definition uses fuel: all recursion is structural, and the loops that wait
  (\<open>acquire\<close>, \<open>granted\<close>, \<open>send_loop\<close>, \<open>work_first\<close>, \<open>sleep_first\<close>) run over a given list of clock
  readings or turns, of any length; C26 shows two readings are enough for a slot, C6 that as many turns
  as messages empty the queue when each is taken or refused for good, C12 and C13 that as many as the rows have tries
  left do when they are not, and C15 how many let a loop return once it is stopped.
  The source's bounds are proved as such: at most 65536 bytes of webhook body, 100 alerts, a
  group text of at most 3837 characters (under the 4000 of a request), six attempts per
  delivery, \<open>max_attempts\<close> per message, 30 to 900 and 30 to 3600 seconds of backoff.

  \<^bold>\<open>Parameters.\<close> What is not in the repository is an argument: \<open>net\<close> (httpx, from a request
  to a response or exception), \<open>loads\<close> (\<open>json.loads\<close>), \<open>fromiso\<close> and \<open>isoformat\<close> (datetime), \<open>hmac\<close> and
  \<open>sha\<close>, \<open>re_search\<close> (\<open>re.search\<close> of a configured pattern), \<open>lib\<close> (libphonenumber), \<open>bind_other\<close>
  (what the SQLite driver stores for a value that is not text), \<open>write\<close> (the development
  provider's file), \<open>mkdir\<close>, \<open>as_int\<close> (pydantic's reading of an integer field), \<open>show_age\<close> (the text of a float). Hypotheses on them are named where a property needs one: digests are ASCII, SHA-256 is
  injective on two given texts, fresh ids have not been used.

  \<^bold>\<open>Where the model simplifies.\<close> The detail of FastAPI's own validation errors is one fixed text. Strings are \<open>char list\<close>, so texts are Latin-1. Clock readings are exact
  integers of microseconds (\<open>time.time()\<close> and the loop's clock are floats in the source). SQLAlchemy's
  unit of work is stated on rows: a flush writes the changed columns of each changed object, or
  raises when its row is gone. The history of \<open>relay_reachable\<close> starts on tables whose rows were
  never tried (the empty database of a new installation is one) and has a fixed configuration; restarts
  are its crash steps.

  \<^bold>\<open>Not modelled.\<close> Logging; the database driver below the rows; closing the gateway's HTTP client
  (\<open>aclose\<close>); the HTTP servers and the exporter's thread; FastAPI's own routes and its answers where no route
  matches; the static page, tests, the script that takes screenshots (it drives a browser) and the server of the
  demo, Helm chart and shell scripts. They keep no state of the service, or are not in the repository.

  \<^bold>\<open>Where code and intent differ.\<close> Lemmas of the theories show it on the model:
  \<open>empty_key_clashes\<close> (Outbound), \<open>duplicate_subscriber_names_clash\<close> (Webhooks),
  \<open>non_ascii_key_raises\<close> (Auth), \<open>events_not_iterable_raises\<close> (Config) with
  \<open>bad_subscribers_stop_start_up\<close> (Lifespan), \<open>offset_timestamp_shifted\<close> (Inbound),
  \<open>non_object_answer_raises\<close> (Worker), \<open>slot_wait_outlasts_shutdown\<close> (Loops): a restart can strand a
  message that waits for its slot; \<open>demo_queued_is_due\<close> (Demo); C23 (Inbound): a receipt can still change a
  status that the source calls terminal, and C28 (Fanout): an exception of one attempt discards
  the outcomes of the other deliveries of the batch.
\<close>

end
